theory Spec2Isabelle
  imports Main "HOL-Library.AList"
begin

section \<open>Python values\<close>

text \<open>
  Both scripts are dynamically typed and pass around whatever \<^verbatim>\<open>json.load\<close> and
  \<^verbatim>\<open>response.json()\<close> hand them, so one type of values serves for JSON documents and
  for the Python objects built from them: \<^verbatim>\<open>None\<close> is \<open>JNull\<close>, a \<^verbatim>\<open>dict\<close> is an
  association list in insertion order (keys are strings, as in every JSON object), a
  \<^verbatim>\<open>str\<close> is a \<open>string\<close> whose characters are the code points below 256. Numbers are
  integers; floating point is outside the model.
\<close>

datatype json =
    JNull
  | JBool bool
  | JInt int
  | JStr string
  | JArr "json list"
  | JObj "(string \<times> json) list"

text \<open>Truth value testing, as \<^verbatim>\<open>not x\<close>, \<^verbatim>\<open>x or y\<close> and \<^verbatim>\<open>if x:\<close> apply it.\<close>

fun truthy :: "json \<Rightarrow> bool" where
  "truthy JNull = False"
| "truthy (JBool b) = b"
| "truthy (JInt i) = (i \<noteq> 0)"
| "truthy (JStr s) = (s \<noteq> [])"
| "truthy (JArr xs) = (xs \<noteq> [])"
| "truthy (JObj kvs) = (kvs \<noteq> [])"

text \<open>The exceptions the two scripts can raise or let through.\<close>

datatype error =
    AINewsError json json json
  | RequestException string
  | JSONDecodeError
  | AttributeError
  | TypeError
  | KeyError string
  | FileNotFoundError string

text \<open>
  \<open>AINewsError message code details\<close> is the one exception class of
  \<^verbatim>\<open>ainews_client.py\<close>; \<open>RequestException cause\<close> is a fault of the HTTP library with
  \<^verbatim>\<open>str(e) = cause\<close>.

  \<^verbatim>\<open>d.get(k, default)\<close>, \<^verbatim>\<open>d[k]\<close> and \<^verbatim>\<open>d[k] = v\<close> on a value that may or may not
  be a dict.
\<close>

definition py_get :: "json \<Rightarrow> string \<Rightarrow> json \<Rightarrow> error + json" where
  "py_get d k dflt =
     (case d of
        JObj kvs \<Rightarrow> (case map_of kvs k of None \<Rightarrow> Inr dflt | Some v \<Rightarrow> Inr v)
      | _ \<Rightarrow> Inl AttributeError)"

definition py_getitem :: "json \<Rightarrow> string \<Rightarrow> error + json" where
  "py_getitem d k =
     (case d of
        JObj kvs \<Rightarrow> (case map_of kvs k of None \<Rightarrow> Inl (KeyError k) | Some v \<Rightarrow> Inr v)
      | _ \<Rightarrow> Inl TypeError)"

definition py_setitem :: "json \<Rightarrow> string \<Rightarrow> json \<Rightarrow> error + json" where
  "py_setitem d k v =
     (case d of
        JObj kvs \<Rightarrow> Inr (JObj (AList.update k v kvs))
      | _ \<Rightarrow> Inl TypeError)"

section \<open>The \<^verbatim>\<open>json\<close> module: \<^verbatim>\<open>dump(obj, f, indent=2)\<close> and \<^verbatim>\<open>load(f)\<close>\<close>

subsection \<open>Encoding\<close>

definition digit_char :: "nat \<Rightarrow> char" where
  "digit_char d = char_of (48 + d)"

fun str_nat :: "nat \<Rightarrow> string" where
  "str_nat n = (if n < 10 then [digit_char n] else str_nat (n div 10) @ [digit_char (n mod 10)])"

declare str_nat.simps [simp del]

definition str_int :: "int \<Rightarrow> string" where
  "str_int i = (if i < 0 then CHR ''-'' # str_nat (nat (- i)) else str_nat (nat i))"

definition hex_char :: "nat \<Rightarrow> char" where
  "hex_char d = (if d < 10 then char_of (48 + d) else char_of (87 + d))"

definition quote :: char where
  "quote = CHR 0x22"

definition backslash :: char where
  "backslash = CHR 0x5C"

text \<open>
  \<^verbatim>\<open>ensure_ascii\<close> is left at its default: the short escapes, then every character
  outside the printable ASCII range as \<^verbatim>\<open>\u00xx\<close>.
\<close>

definition esc_char :: "char \<Rightarrow> string" where
  "esc_char c =
     (if c = quote then [backslash, quote]
      else if c = backslash then [backslash, backslash]
      else if c = CHR 0x0A then [backslash, CHR ''n'']
      else if c = CHR 0x0D then [backslash, CHR ''r'']
      else if c = CHR 0x09 then [backslash, CHR ''t'']
      else if c = CHR 0x08 then [backslash, CHR ''b'']
      else if c = CHR 0x0C then [backslash, CHR ''f'']
      else if 32 \<le> (of_char c :: nat) \<and> (of_char c :: nat) \<le> 126 then [c]
      else [backslash, CHR ''u'', CHR ''0'', CHR ''0'',
            hex_char ((of_char c :: nat) div 16), hex_char ((of_char c :: nat) mod 16)])"

definition encode_str :: "string \<Rightarrow> string" where
  "encode_str s = quote # concat (map esc_char s) @ [quote]"

definition newline_indent :: "nat \<Rightarrow> string" where
  "newline_indent level = CHR 0x0A # replicate (2 * level) CHR '' ''"

text \<open>
  With an indent the item separator is a comma followed by the newline and the
  indentation of the current level, and the key separator is a colon and a space; an
  empty list or dict is printed without a line break.
\<close>

fun encode :: "nat \<Rightarrow> json \<Rightarrow> string"
and encode_elems :: "nat \<Rightarrow> json list \<Rightarrow> string"
and encode_members :: "nat \<Rightarrow> (string \<times> json) list \<Rightarrow> string"
where
  "encode l JNull = ''null''"
| "encode l (JBool b) = (if b then ''true'' else ''false'')"
| "encode l (JInt i) = str_int i"
| "encode l (JStr s) = encode_str s"
| "encode l (JArr []) = ''[]''"
| "encode l (JArr (x # xs)) =
     ''['' @ newline_indent (Suc l) @ encode_elems (Suc l) (x # xs) @ newline_indent l @ '']''"
| "encode l (JObj []) = ''{}''"
| "encode l (JObj (m # ms)) =
     ''{'' @ newline_indent (Suc l) @ encode_members (Suc l) (m # ms) @ newline_indent l @ ''}''"
| "encode_elems l [] = []"
| "encode_elems l [x] = encode l x"
| "encode_elems l (x # y # ys) = encode l x @ '','' @ newline_indent l @ encode_elems l (y # ys)"
| "encode_members l [] = []"
| "encode_members l [(k, v)] = encode_str k @ '': '' @ encode l v"
| "encode_members l ((k, v) # m # ms) =
     encode_str k @ '': '' @ encode l v @ '','' @ newline_indent l @ encode_members l (m # ms)"

definition json_dumps :: "json \<Rightarrow> string" where
  "json_dumps v = encode 0 v"

subsection \<open>Decoding\<close>

definition is_ws :: "char \<Rightarrow> bool" where
  "is_ws c = (c = CHR '' '' \<or> c = CHR 0x09 \<or> c = CHR 0x0A \<or> c = CHR 0x0D)"

definition skip_ws :: "string \<Rightarrow> string" where
  "skip_ws s = dropWhile is_ws s"

definition is_digit :: "char \<Rightarrow> bool" where
  "is_digit c = (48 \<le> (of_char c :: nat) \<and> (of_char c :: nat) \<le> 57)"

definition digit_val :: "char \<Rightarrow> nat" where
  "digit_val c = of_char c - 48"

definition digits_val :: "string \<Rightarrow> nat" where
  "digits_val ds = foldl (\<lambda>a c. 10 * a + digit_val c) 0 ds"

definition hex_val :: "char \<Rightarrow> nat option" where
  "hex_val c =
     (let n = (of_char c :: nat) in
      if 48 \<le> n \<and> n \<le> 57 then Some (n - 48)
      else if 97 \<le> n \<and> n \<le> 102 then Some (n - 87)
      else if 65 \<le> n \<and> n \<le> 70 then Some (n - 55)
      else None)"

definition hex4 :: "char \<Rightarrow> char \<Rightarrow> char \<Rightarrow> char \<Rightarrow> nat option" where
  "hex4 a b c d =
     (case (hex_val a, hex_val b, hex_val c, hex_val d) of
        (Some x, Some y, Some z, Some w) \<Rightarrow> Some (((x * 16 + y) * 16 + z) * 16 + w)
      | _ \<Rightarrow> None)"

definition unescape :: "char \<Rightarrow> char option" where
  "unescape e =
     (if e = quote then Some quote
      else if e = backslash then Some backslash
      else if e = CHR ''/'' then Some CHR ''/''
      else if e = CHR ''b'' then Some (CHR 0x08)
      else if e = CHR ''f'' then Some (CHR 0x0C)
      else if e = CHR ''n'' then Some (CHR 0x0A)
      else if e = CHR ''r'' then Some (CHR 0x0D)
      else if e = CHR ''t'' then Some (CHR 0x09)
      else None)"

definition cons_result :: "'a \<Rightarrow> ('a list \<times> string) option \<Rightarrow> ('a list \<times> string) option" where
  "cons_result x r = (case r of None \<Rightarrow> None | Some (xs, rest) \<Rightarrow> Some (x # xs, rest))"

text \<open>
  The body of a string literal, read from just after the opening quote up to the closing
  one. A raw control character is refused (the decoder is strict); an escape
  \<^verbatim>\<open>\uXXXX\<close> of a code point from 256 on has no value in \<open>string\<close> and is refused too.
\<close>

fun scanstring :: "string \<Rightarrow> (string \<times> string) option" where
  "scanstring [] = None"
| "scanstring (c # cs) =
     (if c = quote then Some ([], cs)
      else if c = backslash then
        (case cs of
           [] \<Rightarrow> None
         | e # es \<Rightarrow>
             if e = CHR ''u'' then
               (case es of
                  h1 # h2 # h3 # h4 # r \<Rightarrow>
                    (case hex4 h1 h2 h3 h4 of
                       None \<Rightarrow> None
                     | Some n \<Rightarrow> if n < 256 then cons_result (char_of n) (scanstring r) else None)
                | _ \<Rightarrow> None)
             else
               (case unescape e of
                  None \<Rightarrow> None
                | Some x \<Rightarrow> cons_result x (scanstring es)))
      else if (of_char c :: nat) < 32 then None
      else cons_result c (scanstring cs))"

text \<open>
  A number literal is an optional minus sign and \<^verbatim>\<open>0\<close> or a digit string without a
  leading zero. One that goes on with a fraction or an exponent is a float, which the
  model does not have: it is refused.
\<close>

definition float_suffix :: "string \<Rightarrow> bool" where
  "float_suffix s =
     (case s of
        [] \<Rightarrow> False
      | c # r \<Rightarrow>
          if c = CHR ''.'' then (case r of [] \<Rightarrow> False | d # _ \<Rightarrow> is_digit d)
          else if c = CHR ''e'' \<or> c = CHR ''E'' then
            (case r of
               [] \<Rightarrow> False
             | d # r' \<Rightarrow>
                 if d = CHR ''+'' \<or> d = CHR ''-''
                 then (case r' of [] \<Rightarrow> False | d' # _ \<Rightarrow> is_digit d')
                 else is_digit d)
          else False)"

definition scan_number :: "string \<Rightarrow> (json \<times> string) option" where
  "scan_number s =
     (let neg = (case s of [] \<Rightarrow> False | c # _ \<Rightarrow> c = CHR ''-'');
          s1 = (if neg then tl s else s)
      in case s1 of
           [] \<Rightarrow> None
         | d # r \<Rightarrow>
             if \<not> is_digit d then None
             else
               let ds = (if d = CHR ''0'' then [d] else d # takeWhile is_digit r);
                   rest = drop (length ds) s1
               in if float_suffix rest then None
                  else Some (JInt (if neg then - int (digits_val ds) else int (digits_val ds)), rest))"

text \<open>
  \<^verbatim>\<open>dict(pairs)\<close>: a key that occurs again keeps its first position and takes the later
  value.
\<close>

definition dict_of_pairs :: "(string \<times> json) list \<Rightarrow> (string \<times> json) list" where
  "dict_of_pairs ps = foldl (\<lambda>d (k, v). AList.update k v d) [] ps"

text \<open>
  The recursive descent of the decoder. The first argument bounds the depth of the calls;
  \<open>json_loads\<close> starts it high enough for any text of the given length.
  \<open>parse_elems\<close> is the loop of an array, entered at the first character of an element;
  \<open>parse_members\<close> is the loop of an object, entered at the opening quote of a key.
\<close>

fun parse_value :: "nat \<Rightarrow> string \<Rightarrow> (json \<times> string) option"
and parse_elems :: "nat \<Rightarrow> string \<Rightarrow> (json list \<times> string) option"
and parse_members :: "nat \<Rightarrow> string \<Rightarrow> ((string \<times> json) list \<times> string) option"
where
  "parse_value 0 s = None"
| "parse_value (Suc n) s =
     (case s of
        [] \<Rightarrow> None
      | c # cs \<Rightarrow>
          if c = quote then
            (case scanstring cs of None \<Rightarrow> None | Some (str, rest) \<Rightarrow> Some (JStr str, rest))
          else if c = CHR ''{'' then
            (case skip_ws cs of
               [] \<Rightarrow> None
             | c' # r \<Rightarrow>
                 if c' = CHR ''}'' then Some (JObj [], r)
                 else (case parse_members n (c' # r) of
                         None \<Rightarrow> None
                       | Some (ps, rest) \<Rightarrow> Some (JObj (dict_of_pairs ps), rest)))
          else if c = CHR ''['' then
            (case skip_ws cs of
               [] \<Rightarrow> None
             | c' # r \<Rightarrow>
                 if c' = CHR '']'' then Some (JArr [], r)
                 else (case parse_elems n (c' # r) of
                         None \<Rightarrow> None
                       | Some (vs, rest) \<Rightarrow> Some (JArr vs, rest)))
          else if take 4 s = ''null'' then Some (JNull, drop 4 s)
          else if take 4 s = ''true'' then Some (JBool True, drop 4 s)
          else if take 5 s = ''false'' then Some (JBool False, drop 5 s)
          else scan_number s)"
| "parse_elems 0 s = None"
| "parse_elems (Suc n) s =
     (case parse_value n s of
        None \<Rightarrow> None
      | Some (v, r) \<Rightarrow>
          (case skip_ws r of
             [] \<Rightarrow> None
           | c # r' \<Rightarrow>
               if c = CHR '']'' then Some ([v], r')
               else if c = CHR '','' then cons_result v (parse_elems n (skip_ws r'))
               else None))"
| "parse_members 0 s = None"
| "parse_members (Suc n) s =
     (case s of
        [] \<Rightarrow> None
      | c # cs \<Rightarrow>
          if c \<noteq> quote then None
          else
            (case scanstring cs of
               None \<Rightarrow> None
             | Some (k, r) \<Rightarrow>
                 (case skip_ws r of
                    [] \<Rightarrow> None
                  | c2 # r2 \<Rightarrow>
                      if c2 \<noteq> CHR '':'' then None
                      else
                        (case parse_value n (skip_ws r2) of
                           None \<Rightarrow> None
                         | Some (v, r3) \<Rightarrow>
                             (case skip_ws r3 of
                                [] \<Rightarrow> None
                              | c3 # r4 \<Rightarrow>
                                  if c3 = CHR ''}'' then Some ([(k, v)], r4)
                                  else if c3 = CHR '','' then
                                    cons_result (k, v) (parse_members n (skip_ws r4))
                                  else None)))))"

text \<open>\<open>None\<close> is \<^verbatim>\<open>json.JSONDecodeError\<close>; text after the value is an error as well.\<close>

definition json_loads :: "string \<Rightarrow> json option" where
  "json_loads s =
     (case parse_value (2 * length s + 2) (skip_ws s) of
        None \<Rightarrow> None
      | Some (v, rest) \<Rightarrow> if skip_ws rest = [] then Some v else None)"

section \<open>Formatting a value into an f-string\<close>

text \<open>
  \<^verbatim>\<open>f"Bearer {api_key}"\<close> formats with \<^verbatim>\<open>str\<close>: a string is taken as it is, any other
  value by its \<^verbatim>\<open>repr\<close>.
\<close>

definition py_printable :: "char \<Rightarrow> bool" where
  "py_printable c =
     (let n = (of_char c :: nat) in (32 \<le> n \<and> n \<le> 126) \<or> (161 \<le> n \<and> n \<noteq> 173))"

definition repr_char :: "char \<Rightarrow> char \<Rightarrow> string" where
  "repr_char q c =
     (if c = q \<or> c = backslash then [backslash, c]
      else if c = CHR 0x09 then [backslash, CHR ''t'']
      else if c = CHR 0x0A then [backslash, CHR ''n'']
      else if c = CHR 0x0D then [backslash, CHR ''r'']
      else if py_printable c then [c]
      else [backslash, CHR ''x'',
            hex_char ((of_char c :: nat) div 16), hex_char ((of_char c :: nat) mod 16)])"

definition repr_str :: "string \<Rightarrow> string" where
  "repr_str s =
     (let q = (if CHR 0x27 \<in> set s \<and> quote \<notin> set s then quote else CHR 0x27)
      in q # concat (map (repr_char q) s) @ [q])"

fun py_repr :: "json \<Rightarrow> string"
and repr_elems :: "json list \<Rightarrow> string"
and repr_members :: "(string \<times> json) list \<Rightarrow> string"
where
  "py_repr JNull = ''None''"
| "py_repr (JBool b) = (if b then ''True'' else ''False'')"
| "py_repr (JInt i) = str_int i"
| "py_repr (JStr s) = repr_str s"
| "py_repr (JArr xs) = ''['' @ repr_elems xs @ '']''"
| "py_repr (JObj kvs) = ''{'' @ repr_members kvs @ ''}''"
| "repr_elems [] = []"
| "repr_elems [x] = py_repr x"
| "repr_elems (x # y # ys) = py_repr x @ '', '' @ repr_elems (y # ys)"
| "repr_members [] = []"
| "repr_members [(k, v)] = repr_str k @ '': '' @ py_repr v"
| "repr_members ((k, v) # m # ms) = repr_str k @ '': '' @ py_repr v @ '', '' @ repr_members (m # ms)"

definition py_str :: "json \<Rightarrow> string" where
  "py_str v = (case v of JStr s \<Rightarrow> s | _ \<Rightarrow> py_repr v)"

section \<open>The world outside the process\<close>

text \<open>
  A request as it is handed to the HTTP library, and what the library does with it: it
  answers with a status and a body, or it raises.
\<close>

record http_request =
  req_method :: string
  req_url :: string
  req_headers :: "(string \<times> json) list"
  req_params :: "(string \<times> json) list"
  req_json :: "json option"

datatype http_reply =
    Fault string
  | Response nat string

type_synonym transport = "http_request \<Rightarrow> http_reply"

text \<open>
  The environment variables, the files (path and text), the reading of the clock as
  \<^verbatim>\<open>datetime.now().isoformat()\<close> gives it, and the requests handed to the transport so
  far, oldest first.
\<close>

record world =
  environ :: "(string \<times> string) list"
  files :: "(string \<times> string) list"
  clock :: string
  sent :: "http_request list"

definition send :: "transport \<Rightarrow> http_request \<Rightarrow> world \<Rightarrow> http_reply \<times> world" where
  "send net rq w = (net rq, w\<lparr>sent := sent w @ [rq]\<rparr>)"

definition path_exists :: "world \<Rightarrow> string \<Rightarrow> bool" where
  "path_exists w p = (map_of (files w) p \<noteq> None)"

text \<open>
  \<^verbatim>\<open>with open(p, 'r') as f: json.load(f)\<close> and
  \<^verbatim>\<open>with open(p, 'w') as f: json.dump(doc, f, indent=2)\<close>. Creating the parent
  directories always succeeds.
\<close>

definition read_json :: "world \<Rightarrow> string \<Rightarrow> error + json" where
  "read_json w p =
     (case map_of (files w) p of
        None \<Rightarrow> Inl (FileNotFoundError p)
      | Some text \<Rightarrow> (case json_loads text of None \<Rightarrow> Inl JSONDecodeError | Some v \<Rightarrow> Inr v))"

definition write_json :: "string \<Rightarrow> json \<Rightarrow> world \<Rightarrow> world" where
  "write_json p doc w = w\<lparr>files := AList.update p (json_dumps doc) (files w)\<rparr>"

section \<open>\<^verbatim>\<open>ainews_client.py\<close>\<close>

definition DEFAULT_BASE_URL :: string where
  "DEFAULT_BASE_URL = ''https://ymoltinator.com/api''"

definition CREDENTIALS_FILE :: string where
  "CREDENTIALS_FILE = ''~/.config/ainews/credentials.json''"

record client =
  base_url :: string
  api_key :: json
  journalist_name :: json

text \<open>\<^verbatim>\<open>os.environ.get(k)\<close>.\<close>

definition environ_get :: "world \<Rightarrow> string \<Rightarrow> json" where
  "environ_get w k = (case map_of (environ w) k of None \<Rightarrow> JNull | Some v \<Rightarrow> JStr v)"

text \<open>
  \<^verbatim>\<open>AINewsClient.__init__\<close>. The base URL argument is a string or \<^verbatim>\<open>None\<close>; the key
  and the name may also come out of a JSON document. The session object only adds its
  two fixed headers to whatever \<^verbatim>\<open>_get_headers\<close> returns and is left to the transport.
\<close>

definition init :: "world \<Rightarrow> json \<Rightarrow> string option \<Rightarrow> json \<Rightarrow> client" where
  "init w api_key_arg base_url_arg journalist_name_arg =
     \<lparr> base_url =
         (let from_environ = (case map_of (environ w) ''AINEWS_BASE_URL'' of
                                None \<Rightarrow> DEFAULT_BASE_URL
                              | Some e \<Rightarrow> e)
          in case base_url_arg of
               None \<Rightarrow> from_environ
             | Some b \<Rightarrow> if b \<noteq> [] then b else from_environ),
       api_key =
         (if truthy api_key_arg then api_key_arg else environ_get w ''AINEWS_API_KEY''),
       journalist_name = journalist_name_arg \<rparr>"

text \<open>\<^verbatim>\<open>AINewsClient.from_credentials\<close>; the argument is the optional path.\<close>

definition from_credentials :: "world \<Rightarrow> string option \<Rightarrow> error + client" where
  "from_credentials w credentials_file =
     (let cred_path = (case credentials_file of None \<Rightarrow> CREDENTIALS_FILE | Some p \<Rightarrow> p)
      in if \<not> path_exists w cred_path then Inl (FileNotFoundError cred_path)
         else
           (case read_json w cred_path of
              Inl e \<Rightarrow> Inl e
            | Inr creds \<Rightarrow>
                (case py_get creds ''api_key'' JNull of
                   Inl e \<Rightarrow> Inl e
                 | Inr k \<Rightarrow>
                     (case py_get creds ''journalist_name'' JNull of
                        Inl e \<Rightarrow> Inl e
                      | Inr nm \<Rightarrow> Inr (init w k None nm)))))"

text \<open>\<^verbatim>\<open>AINewsClient._save_credentials\<close>.\<close>

definition ainews_save_credentials ::
  "client \<Rightarrow> json \<Rightarrow> json \<Rightarrow> json \<Rightarrow> json \<Rightarrow> json \<Rightarrow> world \<Rightarrow> world" where
  "ainews_save_credentials c key name ident verification_code verified w =
     write_json CREDENTIALS_FILE
       (JObj [(''api_key'', key),
              (''journalist_name'', name),
              (''journalist_id'', ident),
              (''verification_code'', verification_code),
              (''verified'', verified),
              (''registered_at'', JStr (clock w)),
              (''base_url'', JStr (base_url c))]) w"

text \<open>\<^verbatim>\<open>AINewsClient._get_headers\<close>.\<close>

definition ainews_get_headers :: "client \<Rightarrow> bool \<Rightarrow> (string \<times> json) list" where
  "ainews_get_headers c auth_required =
     (let headers = [(''Content-Type'', JStr ''application/json'')]
      in if auth_required \<and> truthy (api_key c)
         then AList.update ''X-API-Key'' (api_key c) headers
         else headers)"

text \<open>
  \<^verbatim>\<open>AINewsClient._request\<close>. The keyword arguments the operations pass on are
  \<^verbatim>\<open>params\<close> and \<^verbatim>\<open>json\<close>; \<open>session_request\<close> is the call of
  \<^verbatim>\<open>self._session.request\<close> that the method makes. \<^verbatim>\<open>response.json()\<close>
  decodes with the standard \<^verbatim>\<open>json\<close> module; a body that does not decode becomes
  \<^verbatim>\<open>{"raw": response.text}\<close>; \<^verbatim>\<open>data.get\<close> on a decoded body that is not a dict is an
  \<^verbatim>\<open>AttributeError\<close>, which the \<^verbatim>\<open>except\<close> clause does not catch.
\<close>

definition session_request ::
  "client \<Rightarrow> string \<Rightarrow> string \<Rightarrow> bool \<Rightarrow> (string \<times> json) list \<Rightarrow> json option
     \<Rightarrow> http_request" where
  "session_request c method endpoint auth_required params body =
     (let url = base_url c @ endpoint;
          headers = ainews_get_headers c auth_required
      in \<lparr> req_method = method, req_url = url, req_headers = headers,
           req_params = params, req_json = body \<rparr>)"

definition request ::
  "transport \<Rightarrow> client \<Rightarrow> string \<Rightarrow> string \<Rightarrow> bool \<Rightarrow> (string \<times> json) list \<Rightarrow> json option
     \<Rightarrow> world \<Rightarrow> (error + json) \<times> world" where
  "request net c method endpoint auth_required params body w =
     (let (reply, w') = send net (session_request c method endpoint auth_required params body) w
      in case reply of
           Fault cause \<Rightarrow>
             (Inl (AINewsError (JStr (''Request failed: '' @ cause)) JNull JNull), w')
         | Response status_code text \<Rightarrow>
             if status_code = 204 then (Inr (JObj [(''status'', JStr ''success'')]), w')
             else
               let data = (case json_loads text of
                             None \<Rightarrow> JObj [(''raw'', JStr text)]
                           | Some d \<Rightarrow> d)
               in if status_code \<ge> 400 then
                    (case py_get data ''error'' (JStr (''HTTP '' @ str_nat status_code)) of
                       Inl e \<Rightarrow> (Inl e, w')
                     | Inr error_msg \<Rightarrow>
                         (case py_get data ''code'' JNull of
                            Inl e \<Rightarrow> (Inl e, w')
                          | Inr code \<Rightarrow>
                              (case py_get data ''details'' JNull of
                                 Inl e \<Rightarrow> (Inl e, w')
                               | Inr details \<Rightarrow>
                                   (Inl (AINewsError error_msg code details), w'))))
                  else (Inr data, w'))"

text \<open>
  \<^verbatim>\<open>AINewsClient.register\<close>; it assigns to the client's fields, so the client is
  returned as well.
\<close>

definition register ::
  "transport \<Rightarrow> string \<Rightarrow> bool \<Rightarrow> client \<Rightarrow> world \<Rightarrow> (error + json) \<times> client \<times> world" where
  "register net name save_credentials c w =
     (case request net c ''POST'' ''/journalists/register'' False []
             (Some (JObj [(''name'', JStr name)])) w of
        (Inl e, w1) \<Rightarrow> (Inl e, c, w1)
      | (Inr response, w1) \<Rightarrow>
          (case response of
             JObj kvs \<Rightarrow>
               let get = (\<lambda>k dflt. case map_of kvs k of None \<Rightarrow> dflt | Some v \<Rightarrow> v);
                   c1 = c\<lparr>api_key := get ''api_key'' JNull,
                          journalist_name := get ''name'' JNull\<rparr>
               in if save_credentials \<and> truthy (api_key c1)
                  then (Inr response, c1,
                        ainews_save_credentials c1 (api_key c1) (get ''name'' JNull)
                          (get ''id'' JNull) (get ''verification_code'' JNull)
                          (get ''verified'' (JBool False)) w1)
                  else (Inr response, c1, w1)
           | _ \<Rightarrow> (Inl AttributeError, c, w1)))"

text \<open>\<^verbatim>\<open>str.lstrip("@")\<close>.\<close>

definition lstrip_at :: "string \<Rightarrow> string" where
  "lstrip_at s = dropWhile (\<lambda>c. c = CHR ''@'') s"

text \<open>\<^verbatim>\<open>x or creds.get(k)\<close>: the lookup is only made when \<open>x\<close> is false.\<close>

definition or_get :: "json \<Rightarrow> json \<Rightarrow> string \<Rightarrow> error + json" where
  "or_get x creds k = (if truthy x then Inr x else py_get creds k JNull)"

text \<open>
  \<^verbatim>\<open>AINewsClient.verify\<close>, in three steps as the source has them: the two identifiers
  are completed from the credentials file, the request is made, the file is updated.
\<close>

definition verify_load :: "world \<Rightarrow> json \<Rightarrow> json \<Rightarrow> error + (json \<times> json)" where
  "verify_load w journalist_name_arg verification_code_arg =
     (if (\<not> truthy journalist_name_arg \<or> \<not> truthy verification_code_arg)
         \<and> path_exists w CREDENTIALS_FILE
      then
        (case read_json w CREDENTIALS_FILE of
           Inl e \<Rightarrow> Inl e
         | Inr creds \<Rightarrow>
             (case or_get journalist_name_arg creds ''journalist_name'' of
                Inl e \<Rightarrow> Inl e
              | Inr jn \<Rightarrow>
                  (case or_get verification_code_arg creds ''verification_code'' of
                     Inl e \<Rightarrow> Inl e
                   | Inr vc \<Rightarrow> Inr (jn, vc))))
      else Inr (journalist_name_arg, verification_code_arg))"

definition verify_store :: "string \<Rightarrow> world \<Rightarrow> error + world" where
  "verify_store twitter_handle w =
     (if path_exists w CREDENTIALS_FILE then
        (case read_json w CREDENTIALS_FILE of
           Inl e \<Rightarrow> Inl e
         | Inr creds \<Rightarrow>
             (case py_setitem creds ''verified'' (JBool True) of
                Inl e \<Rightarrow> Inl e
              | Inr creds1 \<Rightarrow>
                  (case py_setitem creds1 ''twitter_handle'' (JStr (lstrip_at twitter_handle)) of
                     Inl e \<Rightarrow> Inl e
                   | Inr creds2 \<Rightarrow> Inr (write_json CREDENTIALS_FILE creds2 w))))
      else Inr w)"

definition verify ::
  "transport \<Rightarrow> client \<Rightarrow> string \<Rightarrow> json \<Rightarrow> json \<Rightarrow> world \<Rightarrow> (error + json) \<times> world" where
  "verify net c twitter_handle journalist_name_arg verification_code_arg w =
     (case verify_load w journalist_name_arg verification_code_arg of
        Inl e \<Rightarrow> (Inl e, w)
      | Inr (jn, vc) \<Rightarrow>
          if \<not> truthy jn \<or> \<not> truthy vc
          then (Inl (AINewsError (JStr ''journalist_name and verification_code are required'')
                       JNull JNull), w)
          else
            (case request net c ''POST'' ''/journalists/verify'' False []
                    (Some (JObj [(''journalist_name'', jn),
                                 (''verification_code'', vc),
                                 (''twitter_handle'', JStr (lstrip_at twitter_handle))])) w of
               (Inl e, w1) \<Rightarrow> (Inl e, w1)
             | (Inr response, w1) \<Rightarrow>
                 (case verify_store twitter_handle w1 of
                    Inl e \<Rightarrow> (Inl e, w1)
                  | Inr w2 \<Rightarrow> (Inr response, w2))))"

text \<open>The story operations and the health check.\<close>

definition get_stories :: "transport \<Rightarrow> client \<Rightarrow> int \<Rightarrow> int \<Rightarrow> world \<Rightarrow> (error + json) \<times> world" where
  "get_stories net c page per_page w =
     request net c ''GET'' ''/stories'' False
       [(''page'', JInt page), (''per_page'', JInt per_page)] None w"

definition get_story :: "transport \<Rightarrow> client \<Rightarrow> string \<Rightarrow> world \<Rightarrow> (error + json) \<times> world" where
  "get_story net c story_id w =
     request net c ''GET'' (''/stories/'' @ story_id) False [] None w"

definition post_story ::
  "transport \<Rightarrow> client \<Rightarrow> string \<Rightarrow> json \<Rightarrow> json \<Rightarrow> world \<Rightarrow> (error + json) \<times> world" where
  "post_story net c title content url w =
     (if \<not> truthy content \<and> \<not> truthy url
      then (Inl (AINewsError (JStr ''Either content or url is required'') JNull JNull), w)
      else
        let payload = [(''title'', JStr title)];
            payload = (if truthy content then AList.update ''content'' content payload
                       else payload);
            payload = (if truthy url then AList.update ''url'' url payload else payload)
        in request net c ''POST'' ''/stories'' True [] (Some (JObj payload)) w)"

definition upvote_story :: "transport \<Rightarrow> client \<Rightarrow> string \<Rightarrow> world \<Rightarrow> (error + json) \<times> world" where
  "upvote_story net c story_id w =
     request net c ''POST'' (''/stories/'' @ story_id @ ''/upvote'') False [] None w"

definition health :: "transport \<Rightarrow> client \<Rightarrow> world \<Rightarrow> (error + json) \<times> world" where
  "health net c w = request net c ''GET'' ''/health'' False [] None w"

section \<open>\<^verbatim>\<open>moltbook_client.py\<close>\<close>

text \<open>
  The functions that need stored credentials. \<^verbatim>\<open>register\<close> of this script and the
  command line dispatch of both scripts are not part of the model, nor is
  \<^verbatim>\<open>print_stories\<close> of the AI News client.
\<close>

definition BASE_URL :: string where
  "BASE_URL = ''https://www.moltbook.com/api/v1''"

definition MOLTBOOK_CREDENTIALS_FILE :: string where
  "MOLTBOOK_CREDENTIALS_FILE = ''~/.config/moltbook/credentials.json''"

text \<open>\<^verbatim>\<open>load_credentials\<close> and \<^verbatim>\<open>save_credentials\<close>; \<open>JNull\<close> is \<^verbatim>\<open>None\<close>.\<close>

definition load_credentials :: "world \<Rightarrow> error + json" where
  "load_credentials w =
     (if path_exists w MOLTBOOK_CREDENTIALS_FILE then read_json w MOLTBOOK_CREDENTIALS_FILE
      else Inr JNull)"

definition save_credentials :: "json \<Rightarrow> world \<Rightarrow> world" where
  "save_credentials creds w = write_json MOLTBOOK_CREDENTIALS_FILE creds w"

text \<open>\<^verbatim>\<open>get_headers\<close>.\<close>

definition get_headers :: "json \<Rightarrow> (string \<times> json) list" where
  "get_headers key =
     (let headers = [(''Content-Type'', JStr ''application/json'')]
      in if truthy key
         then AList.update ''Authorization'' (JStr (''Bearer '' @ py_str key)) headers
         else headers)"

text \<open>
  Every function of the script other than \<^verbatim>\<open>register\<close> opens the same way: it loads
  the credentials, gives up with \<^verbatim>\<open>None\<close> when there are none, and reads
  \<^verbatim>\<open>creds["api_key"]\<close> for the header. \<open>with_credentials\<close> is that opening, followed
  by the rest of the function.
\<close>

definition with_credentials ::
  "world \<Rightarrow> (json \<Rightarrow> (error + json) \<times> world) \<Rightarrow> (error + json) \<times> world" where
  "with_credentials w body =
     (case load_credentials w of
        Inl e \<Rightarrow> (Inl e, w)
      | Inr creds \<Rightarrow>
          if \<not> truthy creds then (Inr JNull, w)
          else (case py_getitem creds ''api_key'' of
                  Inl e \<Rightarrow> (Inl e, w)
                | Inr key \<Rightarrow> body key))"

text \<open>
  \<^verbatim>\<open>requests.get\<close> and \<^verbatim>\<open>requests.post\<close> with the authorisation header. Nothing
  catches what the transport raises. The script accepts the status codes of \<open>ok\<close>,
  decodes the body then (\<^verbatim>\<open>response.json()\<close> raises when it is not JSON) and passes
  the data to \<open>k\<close>; any other status makes it return \<^verbatim>\<open>None\<close>.
\<close>

definition requests_call ::
  "string \<Rightarrow> string \<Rightarrow> json \<Rightarrow> (string \<times> json) list \<Rightarrow> json option \<Rightarrow> http_request" where
  "requests_call method url key params body =
     \<lparr> req_method = method, req_url = url, req_headers = get_headers key,
       req_params = params, req_json = body \<rparr>"

definition call ::
  "transport \<Rightarrow> string \<Rightarrow> string \<Rightarrow> json \<Rightarrow> (string \<times> json) list \<Rightarrow> json option \<Rightarrow> nat list
     \<Rightarrow> (json \<Rightarrow> error + json) \<Rightarrow> world \<Rightarrow> (error + json) \<times> world" where
  "call net method url key params body ok k w =
     (let (reply, w') = send net (requests_call method url key params body) w
      in case reply of
           Fault cause \<Rightarrow> (Inl (RequestException cause), w')
         | Response status_code text \<Rightarrow>
             if status_code \<in> set ok then
               (case json_loads text of
                  None \<Rightarrow> (Inl JSONDecodeError, w')
                | Some data \<Rightarrow> (k data, w'))
             else (Inr JNull, w'))"

text \<open>
  \<^verbatim>\<open>check_status\<close>. Its progress line formats \<^verbatim>\<open>creds.get('agent_name', 'unknown')\<close>
  before anything is sent, which needs the credentials to be a dict.
\<close>

definition check_status :: "transport \<Rightarrow> world \<Rightarrow> (error + json) \<times> world" where
  "check_status net w =
     (case load_credentials w of
        Inl e \<Rightarrow> (Inl e, w)
      | Inr creds \<Rightarrow>
          if \<not> truthy creds then (Inr JNull, w)
          else (case py_get creds ''agent_name'' (JStr ''unknown'') of
                  Inl e \<Rightarrow> (Inl e, w)
                | Inr _ \<Rightarrow>
                    (case py_getitem creds ''api_key'' of
                       Inl e \<Rightarrow> (Inl e, w)
                     | Inr key \<Rightarrow>
                         call net ''GET'' (BASE_URL @ ''/agents/status'') key [] None [200]
                           Inr w)))"

text \<open>
  The listing loops of \<^verbatim>\<open>get_feed\<close> and \<^verbatim>\<open>get_submolts\<close> only print, but they read
  each entry on the way and raise when it has not the expected shape. \<open>sliceable\<close> are
  the values that \<^verbatim>\<open>x[:n]\<close> accepts (a dict is refused like the rest, though from
  Python 3.12 on with a \<^verbatim>\<open>KeyError\<close>), \<open>py_iter\<close> is what a \<^verbatim>\<open>for\<close> loop runs over
  (\<^verbatim>\<open>len\<close> has refused the rest before).
\<close>

definition sliceable :: "json \<Rightarrow> bool" where
  "sliceable v = (case v of JStr _ \<Rightarrow> True | JArr _ \<Rightarrow> True | _ \<Rightarrow> False)"

definition py_iter :: "json \<Rightarrow> error + json list" where
  "py_iter v =
     (case v of
        JArr xs \<Rightarrow> Inr xs
      | JObj kvs \<Rightarrow> Inr (map (\<lambda>(k, _). JStr k) kvs)
      | JStr s \<Rightarrow> Inr (map (\<lambda>c. JStr [c]) s)
      | _ \<Rightarrow> Inl TypeError)"

fun first_error :: "('a \<Rightarrow> error option) \<Rightarrow> 'a list \<Rightarrow> error option" where
  "first_error f [] = None"
| "first_error f (x # xs) = (case f x of None \<Rightarrow> first_error f xs | Some e \<Rightarrow> Some e)"

definition print_post :: "json \<Rightarrow> error option" where
  "print_post post =
     (case post of
        JObj kvs \<Rightarrow>
          (case (case map_of kvs ''author'' of None \<Rightarrow> JObj [] | Some a \<Rightarrow> a) of
             JObj _ \<Rightarrow>
               if \<not> sliceable (case map_of kvs ''created_at'' of None \<Rightarrow> JStr [] | Some t \<Rightarrow> t)
               then Some TypeError
               else (case map_of kvs ''content'' of
                       None \<Rightarrow> None
                     | Some text \<Rightarrow>
                         if truthy text \<and> \<not> sliceable text then Some TypeError else None)
           | _ \<Rightarrow> Some AttributeError)
      | _ \<Rightarrow> Some AttributeError)"

definition print_submolt :: "json \<Rightarrow> error option" where
  "print_submolt s =
     (case s of
        JObj kvs \<Rightarrow>
          if \<not> sliceable (case map_of kvs ''description'' of
                             None \<Rightarrow> JStr ''No description'' | Some d \<Rightarrow> d)
          then Some TypeError else None
      | _ \<Rightarrow> Some AttributeError)"

text \<open>
  \<^verbatim>\<open>data.get("data", data.get(alt, []))\<close>, then the loop \<open>pr\<close> over the entries; the
  entries are the result.
\<close>

definition listing :: "string \<Rightarrow> (json \<Rightarrow> error option) \<Rightarrow> json \<Rightarrow> error + json" where
  "listing alt pr data =
     (case py_get data alt (JArr []) of
        Inl e \<Rightarrow> Inl e
      | Inr dflt \<Rightarrow>
          (case py_get data ''data'' dflt of
             Inl e \<Rightarrow> Inl e
           | Inr entries \<Rightarrow>
               (case py_iter entries of
                  Inl e \<Rightarrow> Inl e
                | Inr xs \<Rightarrow>
                    (case first_error pr xs of
                       Some e \<Rightarrow> Inl e
                     | None \<Rightarrow> Inr entries))))"

definition get_feed :: "transport \<Rightarrow> string \<Rightarrow> int \<Rightarrow> world \<Rightarrow> (error + json) \<times> world" where
  "get_feed net sort_by limit w =
     with_credentials w (\<lambda>key.
       call net ''GET'' (BASE_URL @ ''/posts'') key
         [(''sort'', JStr sort_by), (''limit'', JInt limit)] None [200]
         (listing ''posts'' print_post) w)"

definition get_post :: "transport \<Rightarrow> string \<Rightarrow> world \<Rightarrow> (error + json) \<times> world" where
  "get_post net post_id w =
     with_credentials w (\<lambda>key.
       call net ''GET'' (BASE_URL @ ''/posts/'' @ post_id) key [] None [200] Inr w)"

definition search_posts :: "transport \<Rightarrow> string \<Rightarrow> int \<Rightarrow> world \<Rightarrow> (error + json) \<times> world" where
  "search_posts net query limit w =
     with_credentials w (\<lambda>key.
       call net ''GET'' (BASE_URL @ ''/search'') key
         [(''q'', JStr query), (''limit'', JInt limit)] None [200] Inr w)"

definition get_submolts :: "transport \<Rightarrow> world \<Rightarrow> (error + json) \<times> world" where
  "get_submolts net w =
     with_credentials w (\<lambda>key.
       call net ''GET'' (BASE_URL @ ''/submolts'') key [] None [200]
         (listing ''submolts'' print_submolt) w)"

definition get_my_profile :: "transport \<Rightarrow> world \<Rightarrow> (error + json) \<times> world" where
  "get_my_profile net w =
     with_credentials w (\<lambda>key.
       call net ''GET'' (BASE_URL @ ''/agents/me'') key [] None [200] Inr w)"

definition create_post ::
  "transport \<Rightarrow> string \<Rightarrow> string \<Rightarrow> json \<Rightarrow> json \<Rightarrow> world \<Rightarrow> (error + json) \<times> world" where
  "create_post net submolt title content url w =
     with_credentials w (\<lambda>key.
       let payload = [(''submolt'', JStr submolt), (''title'', JStr title)];
           payload = (if truthy content then AList.update ''content'' content payload
                      else payload);
           payload = (if truthy url then AList.update ''url'' url payload else payload)
       in call net ''POST'' (BASE_URL @ ''/posts'') key [] (Some (JObj payload)) [200, 201]
            Inr w)"

definition add_comment ::
  "transport \<Rightarrow> string \<Rightarrow> json \<Rightarrow> json \<Rightarrow> world \<Rightarrow> (error + json) \<times> world" where
  "add_comment net post_id content parent_id w =
     with_credentials w (\<lambda>key.
       let payload = [(''content'', content)];
           payload = (if truthy parent_id then AList.update ''parent_id'' parent_id payload
                      else payload)
       in call net ''POST'' (BASE_URL @ ''/posts/'' @ post_id @ ''/comments'') key []
            (Some (JObj payload)) [200, 201] Inr w)"

definition upvote_post :: "transport \<Rightarrow> string \<Rightarrow> world \<Rightarrow> (error + json) \<times> world" where
  "upvote_post net post_id w =
     with_credentials w (\<lambda>key.
       call net ''POST'' (BASE_URL @ ''/posts/'' @ post_id @ ''/upvote'') key [] None [200]
         Inr w)"

section \<open>Notions used in the statements and proofs\<close>

text \<open>
  A \<^verbatim>\<open>dict\<close> never holds a key twice. \<open>wf_json\<close> says so of an association list
  and of everything nested in it: these are the values that Python can hold.
\<close>

fun wf_json :: "json \<Rightarrow> bool"
and wf_elems :: "json list \<Rightarrow> bool"
and wf_members :: "(string \<times> json) list \<Rightarrow> bool"
where
  "wf_json (JArr xs) = wf_elems xs"
| "wf_json (JObj kvs) = (distinct (map fst kvs) \<and> wf_members kvs)"
| "wf_json JNull = True"
| "wf_json (JBool b) = True"
| "wf_json (JInt i) = True"
| "wf_json (JStr s) = True"
| "wf_elems [] = True"
| "wf_elems (x # xs) = (wf_json x \<and> wf_elems xs)"
| "wf_members [] = True"
| "wf_members ((k, v) # kvs) = (wf_json v \<and> wf_members kvs)"

text \<open>
  What follows an encoded value in the output of the encoder (nothing, a comma or a line
  break), and the characters an encoded value can begin with.
\<close>

definition delimited :: "string \<Rightarrow> bool" where
  "delimited rest = (case rest of [] \<Rightarrow> True | c # _ \<Rightarrow> c = CHR '','' \<or> c = CHR 0x0A)"

definition value_start :: "char \<Rightarrow> bool" where
  "value_start c = (\<not> is_ws c \<and> c \<noteq> CHR '']'' \<and> c \<noteq> CHR ''}'')"

text \<open>
  The value \<^verbatim>\<open>_request\<close> returns for a response without content, the body of the
  request that \<^verbatim>\<open>verify\<close> sends, and the credentials document after the two
  assignments that \<^verbatim>\<open>verify\<close> makes to it.
\<close>

definition success_sentinel :: json where
  "success_sentinel = JObj [(''status'', JStr ''success'')]"

definition verify_payload :: "json \<Rightarrow> json \<Rightarrow> string \<Rightarrow> json" where
  "verify_payload j v twitter_handle =
     JObj [(''journalist_name'', j), (''verification_code'', v),
           (''twitter_handle'', JStr (lstrip_at twitter_handle))]"

definition verified_doc :: "string \<Rightarrow> (string \<times> json) list \<Rightarrow> (string \<times> json) list" where
  "verified_doc twitter_handle kvs =
     AList.update ''twitter_handle'' (JStr (lstrip_at twitter_handle))
       (AList.update ''verified'' (JBool True) kvs)"

text \<open>
  The resolution of the API key as the specification words it: the explicit argument,
  else the environment variable, else the value loaded from the credential store.
\<close>

definition spec_api_key :: "world \<Rightarrow> json \<Rightarrow> json" where
  "spec_api_key w api_key_arg =
     (if truthy api_key_arg then api_key_arg
      else if truthy (environ_get w ''AINEWS_API_KEY'') then environ_get w ''AINEWS_API_KEY''
      else (case read_json w CREDENTIALS_FILE of
              Inr (JObj kvs) \<Rightarrow> (case map_of kvs ''api_key'' of None \<Rightarrow> JNull | Some k \<Rightarrow> k)
            | _ \<Rightarrow> JNull))"

section \<open>Example worlds\<close>

text \<open>
  Concrete inputs on which the statements below are instantiated: an empty world, a client,
  a world after a Moltbook registration, one after an AI News registration (the text of
  the file and the document it holds), the same with the key also in the environment, and
  a server that accepts a verification.
\<close>

definition world0 :: world where
  "world0 = \<lparr> environ = [], files = [], clock = ''2026-02-01T09:30:00'', sent = [] \<rparr>"

definition client0 :: client where
  "client0 = \<lparr> base_url = DEFAULT_BASE_URL, api_key = JStr ''key'', journalist_name = JNull \<rparr>"

definition moltbook_world :: world where
  \<open>moltbook_world = world0\<lparr>files := [(MOLTBOOK_CREDENTIALS_FILE, ''{"api_key": "k"}'')]\<rparr>\<close>

definition registered_text :: string where
  \<open>registered_text =
     ''{"api_key": "stored", "journalist_name": "Bot", "journalist_id": "7", "verification_code": "c0de", "verified": false, "registered_at": "2026-01-31T08:00:00", "base_url": "https://ymoltinator.com/api"}''\<close>

definition registered_doc :: "(string \<times> json) list" where
  "registered_doc =
     [(''api_key'', JStr ''stored''), (''journalist_name'', JStr ''Bot''),
      (''journalist_id'', JStr ''7''), (''verification_code'', JStr ''c0de''),
      (''verified'', JBool False), (''registered_at'', JStr ''2026-01-31T08:00:00''),
      (''base_url'', JStr ''https://ymoltinator.com/api'')]"

definition registered_world :: world where
  "registered_world = world0\<lparr>files := [(CREDENTIALS_FILE, registered_text)]\<rparr>"

definition env_key_world :: world where
  "env_key_world = registered_world\<lparr>environ := [(''AINEWS_API_KEY'', ''from-env'')]\<rparr>"

definition verified_net :: transport where
  \<open>verified_net = (\<lambda>_. Response 200 ''{"status": "verified"}'')\<close>

section \<open>The decoder inverts the encoder\<close>

text \<open>
  The aim of this section is \<open>json_loads (json_dumps v) = Some v\<close> for every well
  formed \<open>v\<close>, and two facts about the decoder alone: a larger depth bound never
  changes its result, so that \<open>None\<close> always is a decoding error, and what it returns
  is well formed.
\<close>

subsection \<open>Integers\<close>

text \<open>
  \<open>str_nat\<close> writes digits only, without a leading zero, and \<open>digits_val\<close> reads
  them back; so the number scanner stops where the encoder stopped.
\<close>

lemma of_char_digit_char: "d < 10 \<Longrightarrow> (of_char (digit_char d) :: nat) = 48 + d"
  by (simp add: digit_char_def)

lemma is_digit_digit_char: "d < 10 \<Longrightarrow> is_digit (digit_char d)"
  by (simp add: is_digit_def of_char_digit_char)

lemma digit_val_digit_char: "d < 10 \<Longrightarrow> digit_val (digit_char d) = d"
  by (simp add: digit_val_def of_char_digit_char)

lemma digit_char_zero: "d < 10 \<Longrightarrow> (digit_char d = CHR ''0'') = (d = 0)"
proof -
  assume d: "d < 10"
  have "(digit_char d = CHR ''0'') = ((of_char (digit_char d) :: nat) = of_char (CHR ''0''))"
    by (simp only: of_char_eq_iff)
  also have "\<dots> = (d = 0)" using d by (simp add: of_char_digit_char)
  finally show ?thesis .
qed

lemma str_nat_digits: "\<forall>c \<in> set (str_nat n). is_digit c"
proof (induction n rule: str_nat.induct)
  case (1 n)
  show ?case
  proof (cases "n < 10")
    case True
    then show ?thesis by (subst str_nat.simps) (simp add: is_digit_digit_char)
  next
    case False
    with 1 show ?thesis by (subst str_nat.simps) (simp add: is_digit_digit_char)
  qed
qed

lemma str_nat_nonempty: "str_nat n \<noteq> []"
  by (subst str_nat.simps) simp

lemma digits_val_snoc: "digits_val (ds @ [c]) = 10 * digits_val ds + digit_val c"
  by (simp add: digits_val_def)

lemma digits_val_str_nat: "digits_val (str_nat n) = n"
proof (induction n rule: str_nat.induct)
  case (1 n)
  show ?case
  proof (cases "n < 10")
    case True
    then show ?thesis
      by (subst str_nat.simps) (simp add: digits_val_def digit_val_digit_char)
  next
    case False
    with 1 show ?thesis
      by (subst str_nat.simps) (simp add: digits_val_snoc digit_val_digit_char)
  qed
qed

lemma hd_str_nat: "0 < n \<Longrightarrow> hd (str_nat n) \<noteq> CHR ''0''"
proof (induction n rule: str_nat.induct)
  case (1 n)
  show ?case
  proof (cases "n < 10")
    case True
    with 1 show ?thesis by (subst str_nat.simps) (simp add: digit_char_zero)
  next
    case False
    then have "0 < n div 10" by simp
    with 1 False have "hd (str_nat (n div 10)) \<noteq> CHR ''0''" by simp
    with False show ?thesis by (subst str_nat.simps) (simp add: str_nat_nonempty)
  qed
qed

lemma str_nat_zero: "str_nat 0 = ''0''"
  using digit_char_zero [of 0] by (subst str_nat.simps) simp

lemma delimited_not_digit: "delimited rest \<Longrightarrow> takeWhile is_digit rest = []"
  by (cases rest) (auto simp: delimited_def is_digit_def)

lemma delimited_not_float: "delimited rest \<Longrightarrow> \<not> float_suffix rest"
  by (cases rest) (auto simp: delimited_def float_suffix_def)

lemma takeWhile_digits_append:
  assumes "\<forall>c \<in> set ds. is_digit c" and "delimited rest"
  shows "takeWhile is_digit (ds @ rest) = ds"
  using assms by (simp add: delimited_not_digit)

lemma number_lexeme:
  assumes "delimited rest" and dr: "str_nat k = d # r"
  shows "is_digit d"
    and "(if d = CHR ''0'' then [d] else d # takeWhile is_digit (r @ rest)) = d # r"
    and "d \<noteq> CHR ''-''"
proof -
  show dig: "is_digit d" using str_nat_digits [of k] dr by auto
  then show "d \<noteq> CHR ''-''" by (auto simp: is_digit_def)
  show "(if d = CHR ''0'' then [d] else d # takeWhile is_digit (r @ rest)) = d # r"
  proof (cases "k = 0")
    case True
    with dr show ?thesis by (simp add: str_nat_zero)
  next
    case False
    then have "d \<noteq> CHR ''0''" using hd_str_nat [of k] dr by simp
    moreover have "\<forall>c \<in> set r. is_digit c" using str_nat_digits [of k] dr by auto
    then have "takeWhile is_digit (r @ rest) = r"
      using assms(1) by (rule takeWhile_digits_append)
    ultimately show ?thesis by simp
  qed
qed

lemma scan_number_str_int:
  assumes "delimited rest"
  shows "scan_number (str_int i @ rest) = Some (JInt i, rest)"
proof -
  define k where "k = nat \<bar>i\<bar>"
  obtain d r where dr: "str_nat k = d # r"
    using str_nat_nonempty [of k] by (cases "str_nat k") auto
  note lex = number_lexeme [OF assms dr]
  have val: "digits_val (d # r) = k" using digits_val_str_nat [of k] dr by simp
  have nf: "\<not> float_suffix rest" using assms by (rule delimited_not_float)
  show ?thesis
  proof (cases "i < 0")
    case True
    then have "str_int i = CHR ''-'' # d # r"
      using dr by (simp add: str_int_def k_def)
    then show ?thesis
      using True lex val nf by (simp add: scan_number_def k_def)
  next
    case False
    then have "str_int i = d # r"
      using dr by (simp add: str_int_def k_def)
    then show ?thesis
      using False lex val nf by (simp add: scan_number_def k_def)
  qed
qed

lemma str_int_first:
  obtains c cs where "str_int i = c # cs" and "c = CHR ''-'' \<or> is_digit c"
proof -
  obtain d r where dr: "str_nat (nat \<bar>i\<bar>) = d # r"
    using str_nat_nonempty [of "nat \<bar>i\<bar>"] by (cases "str_nat (nat \<bar>i\<bar>)") auto
  have "is_digit d" using str_nat_digits [of "nat \<bar>i\<bar>"] dr by auto
  then show ?thesis using that dr by (cases "i < 0") (auto simp: str_int_def)
qed

subsection \<open>Strings\<close>

text \<open>
  Each escape that \<open>esc_char\<close> writes is read back by \<open>scanstring\<close> as the
  character it stands for.
\<close>

lemma hex_val_hex_char: "d < 16 \<Longrightarrow> hex_val (hex_char d) = Some d"
  by (auto simp: hex_val_def hex_char_def Let_def)

lemma hex_val_zero: "hex_val CHR ''0'' = Some 0"
  by (simp add: hex_val_def)

lemma hex4_byte:
  assumes "n < 256"
  shows "hex4 CHR ''0'' CHR ''0'' (hex_char (n div 16)) (hex_char (n mod 16)) = Some n"
proof -
  have "n div 16 < 16" using assms by simp
  then show ?thesis by (simp add: hex4_def hex_val_zero hex_val_hex_char)
qed

lemma scanstring_esc_char:
  assumes "scanstring X = Some (t, rest)"
  shows "scanstring (esc_char c @ X) = Some (c # t, rest)"
proof -
  let ?n = "of_char c :: nat"
  have n: "?n < 256" by simp
  have inv: "char_of ?n = c" by simp
  consider (q) "c = quote" | (b) "c = backslash" | (nl) "c = CHR 0x0A" | (cr) "c = CHR 0x0D"
    | (tab) "c = CHR 0x09" | (bs) "c = CHR 0x08" | (ff) "c = CHR 0x0C"
    | (plain) "c \<noteq> quote" "c \<noteq> backslash" "32 \<le> ?n" "?n \<le> 126"
    | (other) "c \<noteq> quote" "c \<noteq> backslash" "c \<noteq> CHR 0x0A" "c \<noteq> CHR 0x0D" "c \<noteq> CHR 0x09"
        "c \<noteq> CHR 0x08" "c \<noteq> CHR 0x0C" "\<not> (32 \<le> ?n \<and> ?n \<le> 126)"
    by blast
  then show ?thesis
  proof cases
    case q then show ?thesis using assms
      by (simp add: esc_char_def unescape_def cons_result_def quote_def backslash_def)
  next
    case b then show ?thesis using assms
      by (simp add: esc_char_def unescape_def cons_result_def quote_def backslash_def)
  next
    case nl then show ?thesis using assms
      by (simp add: esc_char_def unescape_def cons_result_def quote_def backslash_def)
  next
    case cr then show ?thesis using assms
      by (simp add: esc_char_def unescape_def cons_result_def quote_def backslash_def)
  next
    case tab then show ?thesis using assms
      by (simp add: esc_char_def unescape_def cons_result_def quote_def backslash_def)
  next
    case bs then show ?thesis using assms
      by (simp add: esc_char_def unescape_def cons_result_def quote_def backslash_def)
  next
    case ff then show ?thesis using assms
      by (simp add: esc_char_def unescape_def cons_result_def quote_def backslash_def)
  next
    case plain
    then have "esc_char c = [c]"
      by (auto simp add: esc_char_def)
    with plain show ?thesis using assms
      by (simp add: cons_result_def)
  next
    case other
    then have "esc_char c = [backslash, CHR ''u'', CHR ''0'', CHR ''0'',
            hex_char (?n div 16), hex_char (?n mod 16)]"
      by (simp add: esc_char_def)
    then show ?thesis using assms hex4_byte [OF n] n inv
      by (simp add: cons_result_def quote_def backslash_def)
  qed
qed

lemma scanstring_encode_body:
  "scanstring (concat (map esc_char s) @ quote # rest) = Some (s, rest)"
  by (induction s) (simp_all add: scanstring_esc_char)

lemma scanstring_encode_str:
  "encode_str s @ rest = quote # X \<Longrightarrow> scanstring X = Some (s, rest)"
  by (auto simp add: encode_str_def scanstring_encode_body)

subsection \<open>Layout\<close>

text \<open>
  Line breaks and indentation are skipped as white space; an encoded value never begins
  with white space or a closing bracket. The step lemmas follow one round of each loop of
  the decoder on a text laid out by the encoder.
\<close>

lemma skip_ws_newline_indent: "skip_ws (newline_indent l @ s) = skip_ws s"
proof -
  have "dropWhile is_ws (replicate n CHR '' '' @ s) = dropWhile is_ws s" for n
    by (induction n) (simp_all add: is_ws_def)
  then show ?thesis by (simp add: skip_ws_def newline_indent_def is_ws_def)
qed

lemma skip_ws_Cons: "\<not> is_ws c \<Longrightarrow> skip_ws (c # s) = c # s"
  by (simp add: skip_ws_def)

lemma skip_ws_space: "skip_ws (CHR '' '' # s) = skip_ws s"
  by (simp add: skip_ws_def is_ws_def)

lemma delimited_newline_indent: "delimited (newline_indent l @ s)"
  by (simp add: delimited_def newline_indent_def)

lemma delimited_comma: "delimited (CHR '','' # s)"
  by (simp add: delimited_def)

lemma encode_str_start: "\<exists>cs. encode_str s = quote # cs"
  by (simp add: encode_str_def)

lemma value_start_quote: "value_start quote"
  by (simp add: value_start_def quote_def is_ws_def)

lemma encode_start: "\<exists>c cs. encode l v = c # cs \<and> value_start c"
proof (cases v)
  case (JInt i)
  obtain c cs where "str_int i = c # cs" "c = CHR ''-'' \<or> is_digit c"
    by (rule str_int_first)
  then show ?thesis using JInt by (auto simp: value_start_def is_ws_def is_digit_def)
next
  case (JStr s)
  then show ?thesis using encode_str_start [of s] value_start_quote by auto
next
  case (JArr xs)
  then show ?thesis by (cases xs) (auto simp: value_start_def is_ws_def)
next
  case (JObj kvs)
  then show ?thesis by (cases kvs) (auto simp: value_start_def is_ws_def)
qed (auto simp: value_start_def is_ws_def)

lemma encode_elems_start: "xs \<noteq> [] \<Longrightarrow> \<exists>c cs. encode_elems l xs = c # cs \<and> value_start c"
proof (cases xs)
  case (Cons x ys)
  obtain c cs where "encode l x = c # cs" "value_start c" using encode_start by blast
  then show ?thesis using Cons by (cases ys) auto
qed simp

lemma encode_members_start: "kvs \<noteq> [] \<Longrightarrow> \<exists>cs. encode_members l kvs = quote # cs"
proof (cases kvs)
  case (Cons kv ms)
  obtain k v where kv: "kv = (k, v)" by (cases kv)
  obtain cs where "encode_str k = quote # cs" using encode_str_start by blast
  then show ?thesis using Cons kv by (cases ms) auto
qed simp

lemma skip_ws_value_start: "value_start c \<Longrightarrow> skip_ws (c # s) = c # s"
  by (simp add: value_start_def skip_ws_Cons)

lemma dict_of_pairs_aux:
  "distinct (map fst (acc @ ps)) \<Longrightarrow>
   foldl (\<lambda>d (k, v). AList.update k v d) acc ps = acc @ ps"
proof (induction ps arbitrary: acc)
  case Nil
  then show ?case by simp
next
  case (Cons p ps)
  obtain k v where p: "p = (k, v)" by (cases p)
  from Cons.prems have "k \<notin> fst ` set acc" by (auto simp: p)
  then have "AList.update k v acc = acc @ [(k, v)]"
    by (induction acc) auto
  moreover from Cons.prems have "distinct (map fst ((acc @ [(k, v)]) @ ps))" by (simp add: p)
  ultimately show ?case using Cons.IH [of "acc @ [(k, v)]"] by (simp add: p)
qed

lemma dict_of_pairs_distinct: "distinct (map fst ps) \<Longrightarrow> dict_of_pairs ps = ps"
  using dict_of_pairs_aux [of "[]" ps] by (simp add: dict_of_pairs_def)

lemma parse_atom:
  assumes "v = JNull \<or> v = JBool b \<or> v = JInt i \<or> v = JStr s" and "delimited rest"
  shows "parse_value (Suc n) (encode l v @ rest) = Some (v, rest)"
proof -
  consider (null) "v = JNull" | (bool) "v = JBool b" | (int) "v = JInt i" | (str) "v = JStr s"
    using assms(1) by blast
  then show ?thesis
  proof cases
    case null
    then show ?thesis by (simp add: quote_def)
  next
    case bool
    then show ?thesis by (simp add: quote_def)
  next
    case int
    obtain c cs where c: "str_int i = c # cs" "c = CHR ''-'' \<or> is_digit c"
      by (rule str_int_first)
    then have ne: "c \<noteq> quote" "c \<noteq> CHR ''{''" "c \<noteq> CHR ''[''" "c \<noteq> CHR ''n''"
      "c \<noteq> CHR ''t''" "c \<noteq> CHR ''f''"
      by (auto simp: is_digit_def quote_def)
    have "parse_value (Suc n) (str_int i @ rest) = scan_number (str_int i @ rest)"
      using c(1) ne by (simp add: take_Cons')
    then show ?thesis using int scan_number_str_int [OF assms(2)] by simp
  next
    case str
    obtain cs where cs: "encode_str s = quote # cs" using encode_str_start by blast
    then have "scanstring (cs @ rest) = Some (s, rest)"
      using scanstring_encode_str [of s rest "cs @ rest"] by simp
    then show ?thesis using str cs by simp
  qed
qed

lemma skip_ws_bracket: "skip_ws (newline_indent l @ CHR '']'' # rest) = CHR '']'' # rest"
  by (simp add: skip_ws_newline_indent skip_ws_Cons is_ws_def)

lemma skip_ws_brace: "skip_ws (newline_indent l @ CHR ''}'' # rest) = CHR ''}'' # rest"
  by (simp add: skip_ws_newline_indent skip_ws_Cons is_ws_def)

lemma skip_ws_comma: "skip_ws (CHR '','' # rest) = CHR '','' # rest"
  by (simp add: skip_ws_Cons is_ws_def)

lemma skip_ws_colon: "skip_ws (CHR '':'' # rest) = CHR '':'' # rest"
  by (simp add: skip_ws_Cons is_ws_def)

lemma parse_array_step:
  assumes "parse_elems n (c # cs) = Some (xs, rest)" and "value_start c"
  shows "parse_value (Suc n) (CHR ''['' # newline_indent l @ c # cs) = Some (JArr xs, rest)"
proof -
  have "skip_ws (newline_indent l @ c # cs) = c # cs"
    using assms(2) by (simp add: skip_ws_newline_indent skip_ws_value_start)
  moreover have "c \<noteq> CHR '']''" using assms(2) by (simp add: value_start_def)
  ultimately show ?thesis using assms(1) by (simp add: quote_def)
qed

lemma parse_object_step:
  assumes "parse_members n (quote # cs) = Some (kvs, rest)" and "distinct (map fst kvs)"
  shows "parse_value (Suc n) (CHR ''{'' # newline_indent l @ quote # cs) = Some (JObj kvs, rest)"
proof -
  have "skip_ws (newline_indent l @ quote # cs) = quote # cs"
    using value_start_quote by (simp add: skip_ws_newline_indent skip_ws_value_start)
  moreover have "quote \<noteq> CHR ''}''" by (simp add: quote_def)
  ultimately show ?thesis
    using assms by (simp add: quote_def dict_of_pairs_distinct)
qed

lemma parse_elems_last:
  assumes "parse_value n s = Some (x, newline_indent l @ CHR '']'' # rest)"
  shows "parse_elems (Suc n) s = Some ([x], rest)"
  using assms by (simp add: skip_ws_bracket)

lemma parse_elems_more:
  assumes "parse_value n s = Some (x, CHR '','' # newline_indent l @ c # cs)"
      and "parse_elems n (c # cs) = Some (ys, rest)" and "value_start c"
  shows "parse_elems (Suc n) s = Some (x # ys, rest)"
proof -
  have "skip_ws (newline_indent l @ c # cs) = c # cs"
    using assms(3) by (simp add: skip_ws_newline_indent skip_ws_value_start)
  then show ?thesis
    using assms(1,2) by (simp add: skip_ws_comma cons_result_def)
qed

lemma parse_member_head:
  assumes "value_start c"
  shows "parse_members (Suc n) (encode_str k @ CHR '':'' # CHR '' '' # c # cs) =
           (case parse_value n (c # cs) of
              None \<Rightarrow> None
            | Some (v, r3) \<Rightarrow>
                (case skip_ws r3 of
                   [] \<Rightarrow> None
                 | c3 # r4 \<Rightarrow>
                     if c3 = CHR ''}'' then Some ([(k, v)], r4)
                     else if c3 = CHR '','' then cons_result (k, v) (parse_members n (skip_ws r4))
                     else None))"
proof -
  obtain body where body: "encode_str k = quote # body" using encode_str_start by blast
  have "scanstring (body @ CHR '':'' # CHR '' '' # c # cs) = Some (k, CHR '':'' # CHR '' '' # c # cs)"
    using scanstring_encode_str [of k "CHR '':'' # CHR '' '' # c # cs"] body by simp
  moreover have "skip_ws (CHR '' '' # c # cs) = c # cs"
    using assms by (simp add: skip_ws_space skip_ws_value_start)
  ultimately show ?thesis by (simp add: body skip_ws_colon)
qed

lemma parse_members_last:
  assumes "parse_value n (c # cs) = Some (v, newline_indent l @ CHR ''}'' # rest)" and "value_start c"
  shows "parse_members (Suc n) (encode_str k @ CHR '':'' # CHR '' '' # c # cs) = Some ([(k, v)], rest)"
  using assms by (simp add: parse_member_head skip_ws_brace del: parse_members.simps)

lemma parse_members_more:
  assumes "parse_value n (c # cs) = Some (v, CHR '','' # newline_indent l @ quote # ms)"
      and "parse_members n (quote # ms) = Some (kvs, rest)" and "value_start c"
  shows "parse_members (Suc n) (encode_str k @ CHR '':'' # CHR '' '' # c # cs) = Some ((k, v) # kvs, rest)"
proof -
  have "skip_ws (newline_indent l @ quote # ms) = quote # ms"
    using value_start_quote by (simp add: skip_ws_newline_indent skip_ws_value_start)
  then show ?thesis
    using assms
    by (simp add: parse_member_head skip_ws_comma cons_result_def quote_def del: parse_members.simps)
qed

subsection \<open>Values\<close>

text \<open>
  By induction along the encoder: from some depth bound on, the decoder returns the
  encoded value and the text that followed it.
\<close>

lemma ge_SucE:
  assumes "Suc N \<le> n"
  obtains n' where "n = Suc n'" and "N \<le> n'"
  using assms by (cases n) auto

lemma parse_atom_ge:
  assumes "v = JNull \<or> v = JBool b \<or> v = JInt i \<or> v = JStr s" and "delimited rest"
  shows "\<exists>N. \<forall>n\<ge>N. parse_value n (encode l v @ rest) = Some (v, rest)"
proof -
  have "\<forall>n\<ge>Suc 0. parse_value n (encode l v @ rest) = Some (v, rest)"
  proof (intro allI impI)
    fix n assume "Suc 0 \<le> n"
    then obtain n' where "n = Suc n'" by (rule ge_SucE)
    then show "parse_value n (encode l v @ rest) = Some (v, rest)"
      using parse_atom [OF assms] by (simp only:)
  qed
  then show ?thesis ..
qed

lemma parse_empty_ge:
  assumes "v = JArr [] \<or> v = JObj []"
  shows "\<exists>N. \<forall>n\<ge>N. parse_value n (encode l v @ rest) = Some (v, rest)"
proof -
  have "\<forall>n\<ge>Suc 0. parse_value n (encode l v @ rest) = Some (v, rest)"
  proof (intro allI impI)
    fix n assume "Suc 0 \<le> n"
    then obtain n' where "n = Suc n'" by (rule ge_SucE)
    then show "parse_value n (encode l v @ rest) = Some (v, rest)"
      using assms by (auto simp: quote_def skip_ws_Cons is_ws_def)
  qed
  then show ?thesis ..
qed

lemma roundtrip_aux:
  "wf_json v \<Longrightarrow> delimited rest \<Longrightarrow>
     \<exists>N. \<forall>n\<ge>N. parse_value n (encode l v @ rest) = Some (v, rest)"
  "xs \<noteq> [] \<Longrightarrow> wf_elems xs \<Longrightarrow>
     \<exists>N. \<forall>n\<ge>N. parse_elems n (encode_elems l xs @ newline_indent l' @ CHR '']'' # rest)
                  = Some (xs, rest)"
  "kvs \<noteq> [] \<Longrightarrow> wf_members kvs \<Longrightarrow>
     \<exists>N. \<forall>n\<ge>N. parse_members n (encode_members l kvs @ newline_indent l' @ CHR ''}'' # rest)
                  = Some (kvs, rest)"
proof (induction l v and l xs and l kvs arbitrary: rest and l' rest and l' rest
       rule: encode_encode_elems_encode_members.induct)
  case (1 l)
  then show ?case by (intro parse_atom_ge [where b = True and i = 0 and s = "[]"]) simp_all
next
  case (2 l b)
  then show ?case by (intro parse_atom_ge [where b = b and i = 0 and s = "[]"]) simp_all
next
  case (3 l i)
  then show ?case by (intro parse_atom_ge [where b = True and i = i and s = "[]"]) simp_all
next
  case (4 l s)
  then show ?case by (intro parse_atom_ge [where b = True and i = 0 and s = s]) simp_all
next
  case (5 l)
  show ?case by (rule parse_empty_ge) simp
next
  case (6 l x xs)
  from 6 have wf: "wf_elems (x # xs)" by simp
  obtain N where N: "\<forall>n\<ge>N. parse_elems n (encode_elems (Suc l) (x # xs) @ newline_indent l @ CHR '']'' # rest)
                  = Some (x # xs, rest)"
    using 6(1) [OF _ wf, of l rest] by auto
  obtain c cs where c: "encode_elems (Suc l) (x # xs) = c # cs" "value_start c"
    using encode_elems_start [of "x # xs" "Suc l"] by auto
  have "\<forall>n\<ge>Suc N. parse_value n (encode l (JArr (x # xs)) @ rest) = Some (JArr (x # xs), rest)"
  proof (intro allI impI)
    fix n assume "Suc N \<le> n"
    then obtain n' where n': "n = Suc n'" "N \<le> n'" by (rule ge_SucE)
    have "parse_elems n' (c # cs @ newline_indent l @ CHR '']'' # rest) = Some (x # xs, rest)"
      using N n'(2) c(1) by (simp del: encode.simps parse_elems.simps)
    from parse_array_step [OF this c(2), of "Suc l"]
    show "parse_value n (encode l (JArr (x # xs)) @ rest) = Some (JArr (x # xs), rest)"
      using c(1) n'(1) by (simp del: parse_value.simps encode.simps(5-) add: encode.simps(6))
  qed
  then show ?case ..
next
  case (7 l)
  show ?case by (rule parse_empty_ge) simp
next
  case (8 l m ms)
  from 8 have wf: "wf_members (m # ms)" and dist: "distinct (map fst (m # ms))" by simp_all
  obtain N where N: "\<forall>n\<ge>N. parse_members n (encode_members (Suc l) (m # ms) @ newline_indent l @ CHR ''}'' # rest)
                  = Some (m # ms, rest)"
    using 8(1) [OF _ wf, of l rest] by auto
  obtain cs where c: "encode_members (Suc l) (m # ms) = quote # cs"
    using encode_members_start [of "m # ms" "Suc l"] by auto
  have "\<forall>n\<ge>Suc N. parse_value n (encode l (JObj (m # ms)) @ rest) = Some (JObj (m # ms), rest)"
  proof (intro allI impI)
    fix n assume "Suc N \<le> n"
    then obtain n' where n': "n = Suc n'" "N \<le> n'" by (rule ge_SucE)
    have "parse_members n' (quote # cs @ newline_indent l @ CHR ''}'' # rest) = Some (m # ms, rest)"
      using N n'(2) c(1) by (simp del: encode.simps parse_members.simps)
    from parse_object_step [OF this dist, of "Suc l"]
    show "parse_value n (encode l (JObj (m # ms)) @ rest) = Some (JObj (m # ms), rest)"
      using c(1) n'(1) by (simp del: parse_value.simps)
  qed
  then show ?case ..
next
  case (9 l)
  then show ?case by simp
next
  case (10 l x)
  then have wf: "wf_json x" by simp
  obtain N where N: "\<forall>n\<ge>N. parse_value n (encode l x @ newline_indent l' @ CHR '']'' # rest)
      = Some (x, newline_indent l' @ CHR '']'' # rest)"
    using 10(1) [OF wf delimited_newline_indent] by blast
  have "\<forall>n\<ge>Suc N. parse_elems n (encode_elems l [x] @ newline_indent l' @ CHR '']'' # rest)
      = Some ([x], rest)"
  proof (intro allI impI)
    fix n assume "Suc N \<le> n"
    then obtain n' where n': "n = Suc n'" "N \<le> n'" by (rule ge_SucE)
    from N n'(2) have "parse_value n' (encode l x @ newline_indent l' @ CHR '']'' # rest)
      = Some (x, newline_indent l' @ CHR '']'' # rest)" by simp
    from parse_elems_last [OF this]
    show "parse_elems n (encode_elems l [x] @ newline_indent l' @ CHR '']'' # rest) = Some ([x], rest)"
      using n'(1) by (simp del: parse_elems.simps)
  qed
  then show ?case ..
next
  case (11 l x y ys)
  then have wf: "wf_json x" "wf_elems (y # ys)" by simp_all
  let ?tail = "encode_elems l (y # ys) @ newline_indent l' @ CHR '']'' # rest"
  obtain c cs where c: "encode_elems l (y # ys) = c # cs" "value_start c"
    using encode_elems_start [of "y # ys" l] by auto
  obtain N1 where N1: "\<forall>n\<ge>N1. parse_value n (encode l x @ CHR '','' # newline_indent l @ ?tail)
      = Some (x, CHR '','' # newline_indent l @ ?tail)"
    using 11(1) [OF wf(1) delimited_comma] by blast
  obtain N2 where N2: "\<forall>n\<ge>N2. parse_elems n ?tail = Some (y # ys, rest)"
    using 11(2) [OF _ wf(2), of l' rest] by auto
  have "\<forall>n\<ge>Suc (max N1 N2).
      parse_elems n (encode_elems l (x # y # ys) @ newline_indent l' @ CHR '']'' # rest)
      = Some (x # y # ys, rest)"
  proof (intro allI impI)
    fix n assume "Suc (max N1 N2) \<le> n"
    then obtain n' where n': "n = Suc n'" "max N1 N2 \<le> n'" by (rule ge_SucE)
    from N1 n'(2) have a: "parse_value n' (encode l x @ CHR '','' # newline_indent l @ ?tail)
      = Some (x, CHR '','' # newline_indent l @ c # (cs @ newline_indent l' @ CHR '']'' # rest))"
      using c(1) by simp
    from N2 n'(2) have b: "parse_elems n' (c # (cs @ newline_indent l' @ CHR '']'' # rest))
      = Some (y # ys, rest)"
      using c(1) by (simp del: parse_elems.simps)
    from parse_elems_more [OF a b c(2)]
    show "parse_elems n (encode_elems l (x # y # ys) @ newline_indent l' @ CHR '']'' # rest)
      = Some (x # y # ys, rest)"
      using n'(1) by (simp del: parse_elems.simps)
  qed
  then show ?case ..
next
  case (12 l)
  then show ?case by simp
next
  case (13 l k v)
  then have wf: "wf_json v" by simp
  obtain c cs where c: "encode l v = c # cs" "value_start c" using encode_start by blast
  obtain N where N: "\<forall>n\<ge>N. parse_value n (encode l v @ newline_indent l' @ CHR ''}'' # rest)
      = Some (v, newline_indent l' @ CHR ''}'' # rest)"
    using 13(1) [OF wf delimited_newline_indent] by blast
  have "\<forall>n\<ge>Suc N. parse_members n (encode_members l [(k, v)] @ newline_indent l' @ CHR ''}'' # rest)
      = Some ([(k, v)], rest)"
  proof (intro allI impI)
    fix n assume "Suc N \<le> n"
    then obtain n' where n': "n = Suc n'" "N \<le> n'" by (rule ge_SucE)
    from N n'(2) have "parse_value n' (c # (cs @ newline_indent l' @ CHR ''}'' # rest))
      = Some (v, newline_indent l' @ CHR ''}'' # rest)" using c(1) by simp
    from parse_members_last [OF this c(2), of k]
    show "parse_members n (encode_members l [(k, v)] @ newline_indent l' @ CHR ''}'' # rest)
      = Some ([(k, v)], rest)"
      using n'(1) c(1) by (simp del: parse_members.simps)
  qed
  then show ?case ..
next
  case (14 l k v m ms)
  then have wf: "wf_json v" "wf_members (m # ms)" by simp_all
  let ?tail = "encode_members l (m # ms) @ newline_indent l' @ CHR ''}'' # rest"
  obtain c cs where c: "encode l v = c # cs" "value_start c" using encode_start by blast
  obtain q where q: "encode_members l (m # ms) = quote # q"
    using encode_members_start [of "m # ms" l] by auto
  obtain N1 where N1: "\<forall>n\<ge>N1. parse_value n (encode l v @ CHR '','' # newline_indent l @ ?tail)
      = Some (v, CHR '','' # newline_indent l @ ?tail)"
    using 14(1) [OF wf(1) delimited_comma] by blast
  obtain N2 where N2: "\<forall>n\<ge>N2. parse_members n ?tail = Some (m # ms, rest)"
    using 14(2) [OF _ wf(2), of l' rest] by auto
  have "\<forall>n\<ge>Suc (max N1 N2).
      parse_members n (encode_members l ((k, v) # m # ms) @ newline_indent l' @ CHR ''}'' # rest)
      = Some ((k, v) # m # ms, rest)"
  proof (intro allI impI)
    fix n assume "Suc (max N1 N2) \<le> n"
    then obtain n' where n': "n = Suc n'" "max N1 N2 \<le> n'" by (rule ge_SucE)
    let ?r = "q @ newline_indent l' @ CHR ''}'' # rest"
    from N1 n'(2) have a: "parse_value n' (c # (cs @ CHR '','' # newline_indent l @ quote # ?r))
      = Some (v, CHR '','' # newline_indent l @ quote # ?r)"
      using c(1) q by simp
    from N2 n'(2) have b: "parse_members n' (quote # ?r) = Some (m # ms, rest)"
      using q by (simp del: parse_members.simps)
    from parse_members_more [OF a b c(2), of k]
    show "parse_members n (encode_members l ((k, v) # m # ms) @ newline_indent l' @ CHR ''}'' # rest)
      = Some ((k, v) # m # ms, rest)"
      using n'(1) c(1) q by (simp del: parse_members.simps)
  qed
  then show ?case ..
qed

subsection \<open>The depth bound of the decoder is never reached\<close>

text \<open>
  Every successful scan consumes input, so the nesting of calls is bounded by the length
  of the text: from \<open>2 * length s + 2\<close> on, the bound has no effect on the result.
\<close>

lemma length_skip_ws: "length (skip_ws s) \<le> length s"
  by (simp add: skip_ws_def length_dropWhile_le)

lemma skip_ws_ConsD: "skip_ws s = c # r \<Longrightarrow> length r < length s"
  using length_skip_ws [of s] by simp

lemma cons_result_SomeD:
  "cons_result x p = Some (ys, r) \<Longrightarrow> \<exists>xs. p = Some (xs, r) \<and> ys = x # xs"
  by (auto simp: cons_result_def split: option.splits)

lemma scanstring_length: "scanstring s = Some (x, r) \<Longrightarrow> length r < length s"
proof (induction "length s" arbitrary: s x r rule: less_induct)
  case less
  note IH = less.hyps and res = less.prems
  from res obtain c cs where s: "s = c # cs" by (cases s) auto
  show ?case
  proof (cases "c = quote")
    case True
    with res s show ?thesis by simp
  next
    case nq: False
    show ?thesis
    proof (cases "c = backslash")
      case False
      with nq res s obtain t where "scanstring cs = Some (t, r)"
        by (auto split: if_splits dest: cons_result_SomeD)
      then have "length r < length cs" using IH [of cs t r] s by simp
      then show ?thesis using s by simp
    next
      case True
      then obtain e es where cs: "cs = e # es" using nq res s by (cases cs) auto
      show ?thesis
      proof (cases "e = CHR ''u''")
        case False
        with nq True cs s res obtain t where "scanstring es = Some (t, r)"
          by (auto split: option.splits dest: cons_result_SomeD)
        then have "length r < length es" using IH [of es t r] s cs by simp
        then show ?thesis using s cs by simp
      next
        case u: True
        with nq True cs s res obtain h1 h2 h3 h4 rr t where
          es: "es = h1 # h2 # h3 # h4 # rr" and t: "scanstring rr = Some (t, r)"
          by (auto split: list.splits option.splits if_splits dest: cons_result_SomeD)
        have "length r < length rr" using IH [of rr t r] t s cs es by simp
        then show ?thesis using s cs es by simp
      qed
    qed
  qed
qed

lemma scan_number_length: "scan_number s = Some (v, r) \<Longrightarrow> length r < length s"
  by (auto simp: scan_number_def Let_def split: list.splits if_splits)

lemma take_literal_length: "take k s = lit \<Longrightarrow> lit \<noteq> [] \<Longrightarrow> 0 < k \<Longrightarrow> length (drop k s) < length s"
  by (cases s) auto

lemma parse_length:
  "(\<forall>s v r. parse_value n s = Some (v, r) \<longrightarrow> length r < length s) \<and>
   (\<forall>s vs r. parse_elems n s = Some (vs, r) \<longrightarrow> length r < length s) \<and>
   (\<forall>s kvs r. parse_members n s = Some (kvs, r) \<longrightarrow> length r < length s)"
proof (induction n)
  case 0
  show ?case by simp
next
  case (Suc n)
  then have V: "\<And>s v r. parse_value n s = Some (v, r) \<Longrightarrow> length r < length s"
    and E: "\<And>s vs r. parse_elems n s = Some (vs, r) \<Longrightarrow> length r < length s"
    and M: "\<And>s kvs r. parse_members n s = Some (kvs, r) \<Longrightarrow> length r < length s"
    by blast+
  have "length r < length s" if "parse_value (Suc n) s = Some (v, r)" for s v r
  proof -
    from that obtain c cs where s: "s = c # cs" by (cases s) auto
    consider (str) "c = quote" | (obj) "c \<noteq> quote" "c = CHR ''{''"
      | (arr) "c \<noteq> quote" "c \<noteq> CHR ''{''" "c = CHR ''[''"
      | (lit) "c \<noteq> quote" "c \<noteq> CHR ''{''" "c \<noteq> CHR ''[''"
      by blast
    then show ?thesis
    proof cases
      case str
      with that s obtain x where "scanstring cs = Some (x, r)"
        by (auto split: option.splits)
      from scanstring_length [OF this] s show ?thesis by simp
    next
      case obj
      with that s obtain c' r' where sk: "skip_ws cs = c' # r'"
        by (cases "skip_ws cs") auto
      from skip_ws_ConsD [OF sk] have l: "length r' < length cs" .
      show ?thesis
      proof (cases "c' = CHR ''}''")
        case True
        with that s obj sk l show ?thesis by simp
      next
        case False
        with that s obj sk obtain ps where "parse_members n (c' # r') = Some (ps, r)"
          by (auto split: option.splits)
        from M [OF this] l s show ?thesis by simp
      qed
    next
      case arr
      with that s obtain c' r' where sk: "skip_ws cs = c' # r'"
        by (cases "skip_ws cs") auto
      from skip_ws_ConsD [OF sk] have l: "length r' < length cs" .
      show ?thesis
      proof (cases "c' = CHR '']''")
        case True
        with that s arr sk l show ?thesis by simp
      next
        case False
        with that s arr sk obtain vs where "parse_elems n (c' # r') = Some (vs, r)"
          by (auto split: option.splits)
        from E [OF this] l s show ?thesis by simp
      qed
    next
      case lit
      with that s have
        "(take 4 s = ''null'' \<and> r = drop 4 s) \<or> (take 4 s = ''true'' \<and> r = drop 4 s) \<or>
         (take 5 s = ''false'' \<and> r = drop 5 s) \<or> scan_number s = Some (v, r)"
        by (auto split: if_splits)
      then show ?thesis
        by (auto dest: scan_number_length take_literal_length)
    qed
  qed
  moreover
  have "length r < length s" if "parse_elems (Suc n) s = Some (vs, r)" for s vs r
  proof -
    from that obtain v r1 where v: "parse_value n s = Some (v, r1)"
      by (auto split: option.splits)
    from V [OF v] have l1: "length r1 < length s" .
    from that v obtain c r2 where sk: "skip_ws r1 = c # r2"
      by (cases "skip_ws r1") auto
    from skip_ws_ConsD [OF sk] have l2: "length r2 < length r1" .
    show ?thesis
    proof (cases "c = CHR '']''")
      case True
      with that v sk l1 l2 show ?thesis by simp
    next
      case False
      with that v sk obtain ys where "parse_elems n (skip_ws r2) = Some (ys, r)"
        by (auto split: if_splits dest: cons_result_SomeD)
      from E [OF this] length_skip_ws [of r2] l1 l2 show ?thesis by simp
    qed
  qed
  moreover
  have "length r < length s" if "parse_members (Suc n) s = Some (kvs, r)" for s kvs r
  proof -
    from that obtain cs where s: "s = quote # cs"
      by (cases s) (auto split: if_splits)
    from that s obtain k r1 where k: "scanstring cs = Some (k, r1)"
      by (auto split: option.splits)
    from scanstring_length [OF k] have l1: "length r1 < length cs" .
    from that s k obtain c2 r2 where sk2: "skip_ws r1 = c2 # r2"
      by (cases "skip_ws r1") auto
    from skip_ws_ConsD [OF sk2] have l2: "length r2 < length r1" .
    from that s k sk2 have c2: "c2 = CHR '':''" by (auto split: if_splits)
    from that s k sk2 c2 obtain v r3 where v: "parse_value n (skip_ws r2) = Some (v, r3)"
      by (auto split: option.splits)
    from V [OF v] length_skip_ws [of r2] have l3: "length r3 < length r2" by simp
    from that s k sk2 c2 v obtain c3 r4 where sk4: "skip_ws r3 = c3 # r4"
      by (cases "skip_ws r3") auto
    from skip_ws_ConsD [OF sk4] have l4: "length r4 < length r3" .
    show ?thesis
    proof (cases "c3 = CHR ''}''")
      case True
      with that s k sk2 c2 v sk4 l1 l2 l3 l4 show ?thesis by simp
    next
      case False
      with that s k sk2 c2 v sk4 obtain ms where "parse_members n (skip_ws r4) = Some (ms, r)"
        by (auto split: if_splits dest: cons_result_SomeD)
      from M [OF this] length_skip_ws [of r4] l1 l2 l3 l4 s show ?thesis by simp
    qed
  qed
  ultimately show ?case by blast
qed

lemma parse_value_length: "parse_value n s = Some (v, r) \<Longrightarrow> length r < length s"
  using parse_length [of n] by blast

lemma parse_stable_step:
  "(\<forall>s. 2 * length s + 2 \<le> n \<longrightarrow> parse_value (Suc n) s = parse_value n s) \<and>
   (\<forall>s. 2 * length s + 3 \<le> n \<longrightarrow> parse_elems (Suc n) s = parse_elems n s) \<and>
   (\<forall>s. 2 * length s + 3 \<le> n \<longrightarrow> parse_members (Suc n) s = parse_members n s)"
proof (induction n)
  case 0
  show ?case by simp
next
  case (Suc n)
  then have V: "\<And>s. 2 * length s + 2 \<le> n \<Longrightarrow> parse_value (Suc n) s = parse_value n s"
    and E: "\<And>s. 2 * length s + 3 \<le> n \<Longrightarrow> parse_elems (Suc n) s = parse_elems n s"
    and M: "\<And>s. 2 * length s + 3 \<le> n \<Longrightarrow> parse_members (Suc n) s = parse_members n s"
    by blast+
  have "parse_value (Suc (Suc n)) s = parse_value (Suc n) s" if b: "2 * length s + 2 \<le> Suc n" for s
  proof (cases s)
    case Nil
    then show ?thesis by simp
  next
    case s: (Cons c cs)
    show ?thesis
    proof (cases "skip_ws cs")
      case Nil
      with s show ?thesis by simp
    next
      case (Cons c' r)
      then have l: "length r < length cs" by (rule skip_ws_ConsD)
      have E': "parse_elems (Suc n) x = parse_elems n x" if "length x \<le> length cs" for x
        using that b s by (intro E) simp
      have M': "parse_members (Suc n) x = parse_members n x" if "length x \<le> length cs" for x
        using that b s by (intro M) simp
      show ?thesis
        using s Cons l by (simp add: E' M' del: parse_members.simps parse_elems.simps)
    qed
  qed
  moreover
  have "parse_elems (Suc (Suc n)) s = parse_elems (Suc n) s" if b: "2 * length s + 3 \<le> Suc n" for s
  proof -
    from b have "2 * length s + 2 \<le> n" by simp
    from V [OF this] have v: "parse_value (Suc n) s = parse_value n s" .
    show ?thesis
    proof (cases "parse_value n s")
      case None
      with v show ?thesis by (simp del: parse_value.simps)
    next
      case (Some p)
      obtain x r1 where p: "p = (x, r1)" by (cases p)
      from Some p have l1: "length r1 < length s" by (auto dest: parse_value_length)
      show ?thesis
      proof (cases "skip_ws r1")
        case Nil
        with v Some p show ?thesis by (simp del: parse_value.simps)
      next
        case (Cons c r2)
        then have "length (skip_ws r2) < length r1"
          using length_skip_ws [of r1] length_skip_ws [of r2] by simp
        with l1 b have "2 * length (skip_ws r2) + 3 \<le> n" by simp
        from E [OF this] show ?thesis
          using v Some p Cons by (simp del: parse_value.simps)
      qed
    qed
  qed
  moreover
  have "parse_members (Suc (Suc n)) s = parse_members (Suc n) s" if b: "2 * length s + 3 \<le> Suc n" for s
  proof (cases s)
    case Nil
    then show ?thesis by simp
  next
    case s: (Cons c cs)
    show ?thesis
    proof (cases "scanstring cs")
      case None
      with s show ?thesis by simp
    next
      case (Some p)
      obtain k r1 where p: "p = (k, r1)" by (cases p)
      from Some p have l1: "length r1 < length cs" by (auto dest: scanstring_length)
      show ?thesis
      proof (cases "skip_ws r1")
        case Nil
        with s Some p show ?thesis by simp
      next
        case sk: (Cons c2 r2)
        then have l2: "length (skip_ws r2) < length r1"
          using length_skip_ws [of r1] length_skip_ws [of r2] by simp
        with l1 b s have "2 * length (skip_ws r2) + 2 \<le> n" by simp
        from V [OF this] have v: "parse_value (Suc n) (skip_ws r2) = parse_value n (skip_ws r2)" .
        show ?thesis
        proof (cases "parse_value n (skip_ws r2)")
          case None
          with v s Some p sk show ?thesis by (simp del: parse_value.simps)
        next
          case pv: (Some q)
          obtain x r3 where q: "q = (x, r3)" by (cases q)
          from pv q have l3: "length r3 < length (skip_ws r2)" by (auto dest: parse_value_length)
          show ?thesis
          proof (cases "skip_ws r3")
            case Nil
            with v s Some p sk pv q show ?thesis by (simp del: parse_value.simps)
          next
            case (Cons c3 r4)
            then have "length (skip_ws r4) < length r3"
              using length_skip_ws [of r3] length_skip_ws [of r4] by simp
            with l1 l2 l3 b s have "2 * length (skip_ws r4) + 3 \<le> n" by simp
            from M [OF this] show ?thesis
              using v s Some p sk pv q Cons by (simp del: parse_value.simps)
          qed
        qed
      qed
    qed
  qed
  ultimately show ?case by blast
qed

lemma parse_value_stable:
  assumes "2 * length s + 2 \<le> n" and "n \<le> m"
  shows "parse_value m s = parse_value n s"
  using assms(2,1)
proof (induction rule: dec_induct)
  case base
  show ?case ..
next
  case (step k)
  then have "2 * length s + 2 \<le> k" by simp
  with parse_stable_step [of k] have "parse_value (Suc k) s = parse_value k s" by blast
  with step show ?case by simp
qed

lemma json_loads_fuel:
  assumes "2 * length s + 2 \<le> n"
  shows "parse_value n (skip_ws s) = parse_value (2 * length s + 2) (skip_ws s)"
proof -
  have "2 * length (skip_ws s) + 2 \<le> 2 * length s + 2" using length_skip_ws [of s] by simp
  then show ?thesis using assms by (rule parse_value_stable)
qed

lemma json_loads_dumps:
  assumes "wf_json v"
  shows "json_loads (json_dumps v) = Some v"
proof -
  let ?s = "encode 0 v"
  have "delimited []" by (simp add: delimited_def)
  with assms obtain N where N: "\<forall>n\<ge>N. parse_value n (?s @ []) = Some (v, [])"
    using roundtrip_aux(1) by blast
  let ?m = "max N (2 * length ?s + 2)"
  have "parse_value ?m ?s = Some (v, [])" using N by simp
  moreover have "parse_value ?m ?s = parse_value (2 * length ?s + 2) ?s"
    by (rule parse_value_stable) simp_all
  ultimately have p: "parse_value (2 * length ?s + 2) ?s = Some (v, [])" by simp
  obtain c cs where "?s = c # cs" "value_start c" using encode_start by blast
  then have "skip_ws ?s = ?s" by (simp add: skip_ws_value_start)
  with p show ?thesis by (simp add: json_loads_def json_dumps_def skip_ws_def)
qed

subsection \<open>Decoded values are well formed\<close>

lemma wf_members_update:
  "wf_members kvs \<Longrightarrow> wf_json v \<Longrightarrow> wf_members (AList.update k v kvs)"
  by (induction kvs) auto

lemma dict_of_pairs_wf_aux:
  "distinct (map fst acc) \<Longrightarrow> wf_members acc \<Longrightarrow> wf_members ps \<Longrightarrow>
   distinct (map fst (foldl (\<lambda>d (k, v). AList.update k v d) acc ps)) \<and>
   wf_members (foldl (\<lambda>d (k, v). AList.update k v d) acc ps)"
proof (induction ps arbitrary: acc)
  case Nil
  then show ?case by simp
next
  case (Cons p ps)
  obtain k v where p: "p = (k, v)" by (cases p)
  from Cons.prems p have "distinct (map fst (AList.update k v acc))"
    and "wf_members (AList.update k v acc)" and "wf_members ps"
    by (simp_all add: distinct_update wf_members_update)
  from Cons.IH [OF this] show ?case by (simp add: p)
qed

lemma dict_of_pairs_wf: "wf_members ps \<Longrightarrow> wf_json (JObj (dict_of_pairs ps))"
  using dict_of_pairs_wf_aux [of "[]" ps] by (simp add: dict_of_pairs_def)

lemma parse_wf:
  "(\<forall>s v r. parse_value n s = Some (v, r) \<longrightarrow> wf_json v) \<and>
   (\<forall>s vs r. parse_elems n s = Some (vs, r) \<longrightarrow> wf_elems vs) \<and>
   (\<forall>s kvs r. parse_members n s = Some (kvs, r) \<longrightarrow> wf_members kvs)"
proof (induction n)
  case 0
  show ?case by simp
next
  case (Suc n)
  then have V: "\<And>s v r. parse_value n s = Some (v, r) \<Longrightarrow> wf_json v"
    and E: "\<And>s vs r. parse_elems n s = Some (vs, r) \<Longrightarrow> wf_elems vs"
    and M: "\<And>s kvs r. parse_members n s = Some (kvs, r) \<Longrightarrow> wf_members kvs"
    by blast+
  have "wf_json v" if "parse_value (Suc n) s = Some (v, r)" for s v r
    using that
    by (auto simp: scan_number_def Let_def
        split: list.splits if_splits option.splits intro: E M dict_of_pairs_wf)
  moreover
  have "wf_elems vs" if "parse_elems (Suc n) s = Some (vs, r)" for s vs r
    using that
    by (auto split: list.splits if_splits option.splits dest!: cons_result_SomeD;
        blast intro: V E)
  moreover
  have "wf_members kvs" if "parse_members (Suc n) s = Some (kvs, r)" for s kvs r
    using that
    by (auto split: list.splits if_splits option.splits dest!: cons_result_SomeD;
        blast intro: V M)
  ultimately show ?case by blast
qed

lemma json_loads_wf:
  assumes "json_loads s = Some v"
  shows "wf_json v"
proof -
  from assms obtain r where "parse_value (2 * length s + 2) (skip_ws s) = Some (v, r)"
    by (auto simp: json_loads_def simp del: parse_value.simps split: option.splits if_splits)
  with parse_wf [of "2 * length s + 2"] show ?thesis by blast
qed

section \<open>Requests and credentials: basic facts\<close>

text \<open>
  \<open>request_reply\<close> is \<^verbatim>\<open>_request\<close> read by the reply of the transport; the other
  lemmas are its cases and the steps of \<^verbatim>\<open>verify\<close>.
\<close>

subsection \<open>The AI News client\<close>

lemma request_reply:
  "request net c method endpoint auth_required params body w =
     (case net (session_request c method endpoint auth_required params body) of
        Fault cause \<Rightarrow> Inl (AINewsError (JStr (''Request failed: '' @ cause)) JNull JNull)
      | Response status_code text \<Rightarrow>
          if status_code = 204 then Inr (JObj [(''status'', JStr ''success'')])
          else
            let data = (case json_loads text of
                          None \<Rightarrow> JObj [(''raw'', JStr text)]
                        | Some d \<Rightarrow> d)
            in if status_code \<ge> 400 then
                 (case data of
                    JObj kvs \<Rightarrow>
                      Inl (AINewsError
                             (case map_of kvs ''error'' of
                                None \<Rightarrow> JStr (''HTTP '' @ str_nat status_code)
                              | Some m \<Rightarrow> m)
                             (case map_of kvs ''code'' of None \<Rightarrow> JNull | Some v \<Rightarrow> v)
                             (case map_of kvs ''details'' of None \<Rightarrow> JNull | Some v \<Rightarrow> v))
                  | _ \<Rightarrow> Inl AttributeError)
               else Inr data,
      w\<lparr>sent := sent w @ [session_request c method endpoint auth_required params body]\<rparr>)"
  by (simp add: request_def send_def py_get_def Let_def
      split: http_reply.split json.split option.split)

lemma request_files: "files (snd (request net c method endpoint auth_required params body w)) = files w"
  by (simp add: request_reply)

lemma request_sent: "sent (snd (request net c method endpoint auth_required params body w)) =
    sent w @ [session_request c method endpoint auth_required params body]"
  by (simp add: request_reply)

lemma request_204:
  assumes "net (session_request c method endpoint auth_required params body) = Response 204 reply_text"
  shows "request net c method endpoint auth_required params body w =
           (Inr success_sentinel,
            w\<lparr>sent := sent w @ [session_request c method endpoint auth_required params body]\<rparr>)"
  using assms by (simp add: request_reply success_sentinel_def)

lemma request_fault:
  assumes "net (session_request c method endpoint auth_required params body) = Fault cause"
  shows "request net c method endpoint auth_required params body w =
           (Inl (AINewsError (JStr (''Request failed: '' @ cause)) JNull JNull),
            w\<lparr>sent := sent w @ [session_request c method endpoint auth_required params body]\<rparr>)"
  using assms by (simp add: request_reply)

lemma request_never_raw:
  "fst (request net c method endpoint auth_required params body w) \<noteq> Inl (RequestException x)"
  by (simp add: request_reply Let_def split: http_reply.split json.split option.split)


lemma request_InrD:
  assumes "request net c method endpoint auth_required params body w = (Inr response, w1)"
  shows "w1 = w\<lparr>sent := sent w @ [session_request c method endpoint auth_required params body]\<rparr>"
  using assms by (simp add: request_reply)

subsection \<open>The Moltbook script\<close>

lemma with_credentials_loaded:
  assumes "load_credentials w = Inr (JObj kvs)" and "kvs \<noteq> []"
      and "map_of kvs ''api_key'' = Some key"
  shows "with_credentials w body = body key"
  using assms by (simp add: with_credentials_def py_getitem_def)

lemma call_sent: "sent (snd (call net method url key params body ok k w)) =
    sent w @ [requests_call method url key params body]"
  by (simp add: call_def send_def split: http_reply.split option.split)

lemma call_not_ok:
  assumes "net (requests_call method url key params body) = Response status_code reply_text"
      and "status_code \<notin> set ok"
  shows "fst (call net method url key params body ok k w) = Inr JNull"
  using assms by (simp add: call_def send_def)

lemma check_status_loaded:
  assumes "load_credentials w = Inr (JObj kvs)" and "kvs \<noteq> []"
      and "map_of kvs ''api_key'' = Some key"
  shows "check_status net w =
           call net ''GET'' (BASE_URL @ ''/agents/status'') key [] None [200] Inr w"
  using assms by (simp add: check_status_def py_getitem_def py_get_def split: option.split)

lemma call_fault:
  assumes "net (requests_call method url key params body) = Fault cause"
  shows "fst (call net method url key params body ok k w) = Inl (RequestException cause)"
  using assms by (simp add: call_def send_def)

subsection \<open>The credentials file\<close>

lemma read_write_json:
  assumes "wf_json doc"
  shows "read_json (write_json p doc w) p = Inr doc"
  using assms by (simp add: read_json_def write_json_def update_conv' json_loads_dumps)

lemma read_json_wf: "read_json w p = Inr doc \<Longrightarrow> wf_json doc"
  by (auto simp: read_json_def split: option.splits dest: json_loads_wf)


lemma read_json_sent: "read_json (w\<lparr>sent := x\<rparr>) p = read_json w p"
  by (simp add: read_json_def)

lemma path_exists_sent: "path_exists (w\<lparr>sent := x\<rparr>) p = path_exists w p"
  by (simp add: path_exists_def)

lemma files_write_json: "files (write_json p doc w) = AList.update p (json_dumps doc) (files w)"
  by (simp add: write_json_def)

subsection \<open>The steps of \<^verbatim>\<open>verify\<close>\<close>

lemma wf_verified_doc: "wf_json (JObj kvs) \<Longrightarrow> wf_json (JObj (verified_doc h kvs))"
  by (simp add: verified_doc_def distinct_update wf_members_update)

lemma map_of_verified_doc:
  "map_of (verified_doc h kvs) k =
     (if k = ''twitter_handle'' then Some (JStr (lstrip_at h))
      else if k = ''verified'' then Some (JBool True)
      else map_of kvs k)"
  by (simp add: verified_doc_def update_conv')

lemma verify_store_absent:
  "\<not> path_exists w CREDENTIALS_FILE \<Longrightarrow> verify_store h w = Inr w"
  by (simp add: verify_store_def)


lemma verify_store_InrD:
  assumes "verify_store h w = Inr w'" and "path_exists w CREDENTIALS_FILE"
  obtains kvs where "read_json w CREDENTIALS_FILE = Inr (JObj kvs)"
    and "w' = write_json CREDENTIALS_FILE (JObj (verified_doc h kvs)) w"
  using assms
  by (auto simp add: verify_store_def py_setitem_def verified_doc_def
      split: sum.splits json.splits)

lemma verify_store_ok:
  assumes "path_exists w CREDENTIALS_FILE \<longrightarrow> (\<exists>kvs. read_json w CREDENTIALS_FILE = Inr (JObj kvs))"
  shows "\<exists>w'. verify_store twitter_handle w = Inr w'"
  using assms by (auto simp add: verify_store_def py_setitem_def)

lemma verify_InrD:
  assumes "verify net c h jn vc w = (Inr response, w')"
  obtains j v w1 where "verify_load w jn vc = Inr (j, v)" and "truthy j" and "truthy v"
    and "request net c ''POST'' ''/journalists/verify'' False [] (Some (verify_payload j v h)) w
           = (Inr response, w1)"
    and "verify_store h w1 = Inr w'"
  using assms
  by (auto simp add: verify_def verify_payload_def split: sum.splits if_splits prod.splits)


lemma verify_unfold:
  assumes "verify_load w jn vc = Inr (j, v)" and "truthy j" and "truthy v"
  shows "verify net c h jn vc w =
           (let r = request net c ''POST'' ''/journalists/verify'' False []
                      (Some (verify_payload j v h)) w
            in case fst r of
                 Inl e \<Rightarrow> (Inl e, snd r)
               | Inr response \<Rightarrow>
                   (case verify_store h (snd r) of
                      Inl e \<Rightarrow> (Inl e, snd r)
                    | Inr w2 \<Rightarrow> (Inr response, w2)))"
  using assms by (simp add: verify_def verify_payload_def case_prod_beta Let_def)

lemma verify_store_sent: "verify_store h w = Inr w2 \<Longrightarrow> sent w2 = sent w"
  by (auto simp add: verify_store_def write_json_def split: if_splits sum.splits)

lemma verify_store_files:
  assumes "verify_store h w = Inr w2"
  shows "files w2 = files w \<or>
         (\<exists>kvs. files w2 = AList.update CREDENTIALS_FILE (json_dumps (JObj (verified_doc h kvs)))
                               (files w))"
proof (cases "path_exists w CREDENTIALS_FILE")
  case False
  then have "w2 = w" using assms by (simp add: verify_store_absent)
  then show ?thesis by simp
next
  case True
  with assms obtain kvs where "w2 = write_json CREDENTIALS_FILE (JObj (verified_doc h kvs)) w"
    by (rule verify_store_InrD)
  then have "files w2 = AList.update CREDENTIALS_FILE (json_dumps (JObj (verified_doc h kvs)))
                               (files w)"
    by (simp add: files_write_json)
  then show ?thesis by blast
qed

lemma verify_sent:
  "sent (snd (verify net c h jn vc w)) = sent w \<or>
   (\<exists>j v. sent (snd (verify net c h jn vc w)) =
            sent w @ [session_request c ''POST'' ''/journalists/verify'' False []
                        (Some (verify_payload j v h))])"
proof (cases "verify_load w jn vc")
  case (Inl e)
  then show ?thesis by (simp add: verify_def)
next
  case (Inr p)
  obtain j v where p: "p = (j, v)" by (cases p)
  show ?thesis
  proof (cases "truthy j \<and> truthy v")
    case False
    with Inr p show ?thesis by (auto simp add: verify_def)
  next
    case True
    let ?r = "request net c ''POST'' ''/journalists/verify'' False [] (Some (verify_payload j v h)) w"
    have s1: "sent (snd ?r) = sent w @ [session_request c ''POST'' ''/journalists/verify'' False []
                        (Some (verify_payload j v h))]"
      by (rule request_sent)
    have "sent (snd (verify net c h jn vc w)) = sent (snd ?r)"
      using Inr p True
      by (simp add: verify_unfold Let_def split: sum.split) (auto dest: verify_store_sent)
    with s1 show ?thesis by (intro disjI2 exI [of _ j] exI [of _ v]) simp
  qed
qed

lemma verify_files:
  "files (snd (verify net c h jn vc w)) = files w \<or>
   (\<exists>kvs. files (snd (verify net c h jn vc w)) =
           AList.update CREDENTIALS_FILE (json_dumps (JObj (verified_doc h kvs))) (files w))"
proof (cases "verify_load w jn vc")
  case (Inl e)
  then show ?thesis by (simp add: verify_def)
next
  case (Inr p)
  obtain j v where p: "p = (j, v)" by (cases p)
  show ?thesis
  proof (cases "truthy j \<and> truthy v")
    case False
    with Inr p show ?thesis by (auto simp add: verify_def)
  next
    case True
    let ?r = "request net c ''POST'' ''/journalists/verify'' False [] (Some (verify_payload j v h)) w"
    have f1: "files (snd ?r) = files w" by (rule request_files)
    show ?thesis
    proof (cases "fst ?r")
      case (Inl e)
      then have "verify net c h jn vc w = (Inl e, snd ?r)"
        using Inr p True by (simp add: verify_unfold Let_def)
      with f1 show ?thesis by simp
    next
      case resp: (Inr response)
      show ?thesis
      proof (cases "verify_store h (snd ?r)")
        case (Inl e)
        then have "verify net c h jn vc w = (Inl e, snd ?r)"
          using Inr p True resp by (simp add: verify_unfold Let_def)
        with f1 show ?thesis by simp
      next
        case st: (Inr w2)
        then have v: "verify net c h jn vc w = (Inr response, w2)"
          using Inr p True resp by (simp add: verify_unfold Let_def)
        from verify_store_files [OF st] v f1 show ?thesis by simp
      qed
    qed
  qed
qed

lemma verify_204:
  assumes net: "\<forall>rq. net rq = Response 204 reply_text"
      and ids: "verify_load w jn vc = Inr (j, v)" "truthy j" "truthy v"
      and cred: "path_exists w CREDENTIALS_FILE \<longrightarrow>
                   (\<exists>kvs. read_json w CREDENTIALS_FILE = Inr (JObj kvs))"
  shows "fst (verify net c twitter_handle jn vc w) = Inr success_sentinel"
proof -
  let ?rq = "session_request c ''POST'' ''/journalists/verify'' False []
               (Some (JObj [(''journalist_name'', j), (''verification_code'', v),
                            (''twitter_handle'', JStr (lstrip_at twitter_handle))]))"
  let ?w1 = "w\<lparr>sent := sent w @ [?rq]\<rparr>"
  from cred have "path_exists ?w1 CREDENTIALS_FILE \<longrightarrow>
      (\<exists>kvs. read_json ?w1 CREDENTIALS_FILE = Inr (JObj kvs))"
    by (simp add: read_json_sent path_exists_sent)
  then obtain w2 where "verify_store twitter_handle ?w1 = Inr w2"
    using verify_store_ok by blast
  then show ?thesis
    using ids net by (simp add: verify_def request_204 [of net _ _ _ _ _ _ reply_text])
qed

lemma register_204:
  assumes net: "\<forall>rq. net rq = Response 204 reply_text"
  shows "fst (register net name save c w) = Inr success_sentinel"
  using net
  by (simp add: register_def request_204 [of net _ _ _ _ _ _ reply_text])
     (simp add: success_sentinel_def)

lemma lstrip_at_replicate: "\<exists>n. s = replicate n CHR ''@'' @ lstrip_at s"
proof (induction s)
  case Nil
  show ?case by (simp add: lstrip_at_def)
next
  case (Cons c s)
  show ?case
  proof (cases "c = CHR ''@''")
    case True
    from Cons obtain n where "s = replicate n CHR ''@'' @ lstrip_at s" ..
    then have "c # s = replicate (Suc n) CHR ''@'' @ lstrip_at (c # s)"
      using True by (simp add: lstrip_at_def)
    then show ?thesis ..
  next
    case False
    then have "c # s = replicate 0 CHR ''@'' @ lstrip_at (c # s)"
      by (simp add: lstrip_at_def)
    then show ?thesis ..
  qed
qed

lemma lstrip_at_no_at: "take 1 (lstrip_at s) \<noteq> ''@''"
proof (cases "lstrip_at s")
  case Nil
  then show ?thesis by simp
next
  case (Cons c cs)
  then have "c \<noteq> CHR ''@''"
    unfolding lstrip_at_def using hd_dropWhile [of "\<lambda>c. c = CHR ''@''" s] by fastforce
  with Cons show ?thesis by simp
qed


subsection \<open>The example worlds\<close>

lemma registered_file: "map_of (files registered_world) CREDENTIALS_FILE = Some registered_text"
  by (simp add: registered_world_def registered_text_def)


lemma verify_registered:
  "fst (verify verified_net client0 ''@@agent'' JNull JNull registered_world)
     = Inr (JObj [(''status'', JStr ''verified'')])"
  by code_simp

lemma verify_registered_pair:
  "verify verified_net client0 ''@@agent'' JNull JNull registered_world =
     (Inr (JObj [(''status'', JStr ''verified'')]),
      snd (verify verified_net client0 ''@@agent'' JNull JNull registered_world))"
  using verify_registered by (simp add: prod_eq_iff)

lemma read_registered_world: "read_json registered_world CREDENTIALS_FILE = Inr (JObj registered_doc)"
  by code_simp

lemma load_moltbook_world: "load_credentials moltbook_world = Inr (JObj [(''api_key'', JStr ''k'')])"
  by code_simp

lemma verify_load_registered_world:
  "verify_load registered_world JNull JNull = Inr (JStr ''Bot'', JStr ''c0de'')"
  by code_simp

lemma from_credentials_loaded:
  assumes "read_json w CREDENTIALS_FILE = Inr (JObj kvs)"
  shows "from_credentials w None =
           Inr (init w (case map_of kvs ''api_key'' of None \<Rightarrow> JNull | Some k \<Rightarrow> k) None
                       (case map_of kvs ''journalist_name'' of None \<Rightarrow> JNull | Some n \<Rightarrow> n))"
proof -
  from assms have "path_exists w CREDENTIALS_FILE"
    by (auto simp add: read_json_def path_exists_def split: option.splits)
  with assms show ?thesis
    by (simp add: from_credentials_def py_get_def split: option.split)
qed

section \<open>The claims\<close>

text \<open>
  Claim C1, as amended. \<^verbatim>\<open>AINewsClient.post_story\<close> called with neither a content nor
  a url (each \<^verbatim>\<open>None\<close>, empty, or false in any other way) raises its
  \<^verbatim>\<open>AINewsError\<close> and leaves the world as it was: nothing is handed to the
  transport. \<^verbatim>\<open>create_post\<close> of the Moltbook script has no such check: once it has
  credentials it posts a payload of the submolt and the title alone.
\<close>

theorem create_requires_content_or_url:
  assumes "\<not> truthy content" and "\<not> truthy url"
  shows "post_story net c title content url w =
           (Inl (AINewsError (JStr ''Either content or url is required'') JNull JNull), w) \<and>
         (load_credentials w = Inr (JObj kvs) \<and> kvs \<noteq> [] \<and> map_of kvs ''api_key'' = Some key \<longrightarrow>
            sent (snd (create_post net submolt title content url w)) =
              sent w @ [requests_call ''POST'' (BASE_URL @ ''/posts'') key []
                          (Some (JObj [(''submolt'', JStr submolt), (''title'', JStr title)]))])"
  using assms
  by (auto simp add: post_story_def create_post_def with_credentials_loaded call_sent)

text \<open>
  An instance: \<^verbatim>\<open>post_story("title", None, "")\<close> in the empty world, and
  \<^verbatim>\<open>create_post("general", "title", None, "")\<close> with Moltbook credentials.
\<close>

theorem create_requires_content_or_url_witness:
  "\<not> truthy JNull \<and> \<not> truthy (JStr '''') \<and>
   post_story (\<lambda>_. Response 200 ''{}'') client0 ''title'' JNull (JStr '''') world0 =
     (Inl (AINewsError (JStr ''Either content or url is required'') JNull JNull), world0) \<and>
   sent (snd (create_post (\<lambda>_. Response 200 ''{}'') ''general'' ''title'' JNull (JStr '''')
                moltbook_world)) =
     sent moltbook_world @ [requests_call ''POST'' (BASE_URL @ ''/posts'') (JStr ''k'') []
                (Some (JObj [(''submolt'', JStr ''general''), (''title'', JStr ''title'')]))]"
proof -
  have l: "load_credentials moltbook_world = Inr (JObj [(''api_key'', JStr ''k'')])"
    by code_simp
  show ?thesis
    using create_requires_content_or_url [where content = JNull and url = "JStr ''''"
        and net = "\<lambda>_. Response 200 ''{}''" and c = client0 and title = "''title''"
        and w = world0 and kvs = "[(''api_key'', JStr ''k'')]"]
      create_requires_content_or_url [where content = JNull and url = "JStr ''''"
        and net = "\<lambda>_. Response 200 ''{}''" and c = client0 and title = "''title''"
        and w = moltbook_world and kvs = "[(''api_key'', JStr ''k'')]" and key = "JStr ''k''"
        and submolt = "''general''"]
      l by simp
qed

text \<open>
  Claim C1 as stated fails for \<^verbatim>\<open>create_post\<close>: with stored credentials and neither
  content nor url it raises nothing, and one request goes out where none had been sent.
\<close>

theorem create_post_sends_without_content:
  "fst (create_post (\<lambda>_. Response 201 ''{}'') ''general'' ''title'' JNull JNull moltbook_world)
     = Inr (JObj []) \<and>
   sent moltbook_world = [] \<and>
   length (sent (snd (create_post (\<lambda>_. Response 201 ''{}'') ''general'' ''title'' JNull JNull
                        moltbook_world))) = 1"
  by code_simp




text \<open>
  Claim C3, as amended. Against a transport that answers 204, \<^verbatim>\<open>_request\<close> returns
  \<^verbatim>\<open>{"status": "success"}\<close> whatever the body is, and so does every operation of the
  AI News client that gets as far as the request: \<^verbatim>\<open>register\<close>, \<^verbatim>\<open>verify\<close> (when
  its two identifiers are there and the credentials file, if any, holds an object),
  \<^verbatim>\<open>get_stories\<close>, \<^verbatim>\<open>get_story\<close>, \<^verbatim>\<open>post_story\<close> (with a content or a url),
  \<^verbatim>\<open>upvote_story\<close> and \<^verbatim>\<open>health\<close>. The functions of the Moltbook script accept
  200 (and 201 where they create): with credentials, each returns \<^verbatim>\<open>None\<close> on 204.
\<close>

theorem no_content_response:
  assumes "\<forall>rq. net rq = Response 204 reply_text"
  shows "fst (request net c http_method endpoint auth_required params body w) = Inr success_sentinel \<and>
         fst (register net name save c w) = Inr success_sentinel \<and>
         (verify_load w jn vc = Inr (j, v) \<and> truthy j \<and> truthy v \<and>
          (path_exists w CREDENTIALS_FILE \<longrightarrow> (\<exists>doc. read_json w CREDENTIALS_FILE = Inr (JObj doc)))
            \<longrightarrow> fst (verify net c twitter_handle jn vc w) = Inr success_sentinel) \<and>
         fst (get_stories net c page per_page w) = Inr success_sentinel \<and>
         fst (get_story net c story_id w) = Inr success_sentinel \<and>
         (truthy content \<or> truthy url \<longrightarrow>
            fst (post_story net c title content url w) = Inr success_sentinel) \<and>
         fst (upvote_story net c story_id w) = Inr success_sentinel \<and>
         fst (health net c w) = Inr success_sentinel \<and>
         (load_credentials w = Inr (JObj kvs) \<and> kvs \<noteq> [] \<and> map_of kvs ''api_key'' = Some key \<longrightarrow>
            fst (check_status net w) = Inr JNull \<and>
            fst (get_feed net sort_by limit w) = Inr JNull \<and>
            fst (get_post net post_id w) = Inr JNull \<and>
            fst (search_posts net query limit w) = Inr JNull \<and>
            fst (get_submolts net w) = Inr JNull \<and>
            fst (get_my_profile net w) = Inr JNull \<and>
            fst (create_post net submolt title content url w) = Inr JNull \<and>
            fst (add_comment net post_id content parent_id w) = Inr JNull \<and>
            fst (upvote_post net post_id w) = Inr JNull)"
proof -
  note r = request_204 [of net _ _ _ _ _ _ reply_text]
  have molt: "fst (call net method' url' key' params' body' ok k w) = Inr JNull"
    if "204 \<notin> set ok" for method' url' key' params' body' ok k
    using assms that by (intro call_not_ok [where status_code = 204 and reply_text = reply_text]) simp_all
  have 1: "fst (request net c http_method endpoint auth_required params body w) = Inr success_sentinel"
    using assms by (simp add: r)
  have 2: "fst (register net name save c w) = Inr success_sentinel"
    using assms by (rule register_204)
  have 3: "verify_load w jn vc = Inr (j, v) \<and> truthy j \<and> truthy v \<and>
          (path_exists w CREDENTIALS_FILE \<longrightarrow> (\<exists>doc. read_json w CREDENTIALS_FILE = Inr (JObj doc)))
            \<longrightarrow> fst (verify net c twitter_handle jn vc w) = Inr success_sentinel"
    using assms verify_204 [of net reply_text w jn vc j v] by blast
  have 4: "fst (get_stories net c page per_page w) = Inr success_sentinel"
    using assms by (simp add: get_stories_def r)
  have 5: "fst (get_story net c story_id w) = Inr success_sentinel"
    using assms by (simp add: get_story_def r)
  have 6: "truthy content \<or> truthy url \<longrightarrow>
            fst (post_story net c title content url w) = Inr success_sentinel"
    using assms by (auto simp add: post_story_def r Let_def)
  have 7: "fst (upvote_story net c story_id w) = Inr success_sentinel"
    using assms by (simp add: upvote_story_def r)
  have 8: "fst (health net c w) = Inr success_sentinel"
    using assms by (simp add: health_def r)
  have 9: "fst (check_status net w) = Inr JNull \<and>
            fst (get_feed net sort_by limit w) = Inr JNull \<and>
            fst (get_post net post_id w) = Inr JNull \<and>
            fst (search_posts net query limit w) = Inr JNull \<and>
            fst (get_submolts net w) = Inr JNull \<and>
            fst (get_my_profile net w) = Inr JNull \<and>
            fst (create_post net submolt title content url w) = Inr JNull \<and>
            fst (add_comment net post_id content parent_id w) = Inr JNull \<and>
            fst (upvote_post net post_id w) = Inr JNull"
    if "load_credentials w = Inr (JObj kvs)" "kvs \<noteq> []" "map_of kvs ''api_key'' = Some key"
    using that
    by (simp add: check_status_loaded with_credentials_loaded molt get_feed_def get_post_def
        search_posts_def get_submolts_def get_my_profile_def create_post_def add_comment_def
        upvote_post_def Let_def)
  from 1 2 3 4 5 6 7 8 9 show ?thesis by blast
qed

text \<open>
  An instance: every operation against a transport that answers 204 with an empty body,
  the AI News ones in the world after a registration, the Moltbook ones with Moltbook
  credentials.
\<close>

theorem no_content_response_witness:
  "(\<forall>rq. (\<lambda>_. Response 204 []) rq = Response 204 []) \<and>
   verify_load registered_world JNull JNull = Inr (JStr ''Bot'', JStr ''c0de'') \<and>
   truthy (JStr ''Bot'') \<and> truthy (JStr ''c0de'') \<and>
   path_exists registered_world CREDENTIALS_FILE \<and>
   read_json registered_world CREDENTIALS_FILE = Inr (JObj registered_doc) \<and>
   (truthy (JStr ''text'') \<or> truthy JNull) \<and>
   load_credentials moltbook_world = Inr (JObj [(''api_key'', JStr ''k'')]) \<and>
   fst (request (\<lambda>_. Response 204 []) client0 ''GET'' ''/health'' False [] None registered_world)
     = Inr success_sentinel \<and>
   fst (register (\<lambda>_. Response 204 []) ''Bot'' True client0 registered_world) = Inr success_sentinel \<and>
   fst (verify (\<lambda>_. Response 204 []) client0 ''@handle'' JNull JNull registered_world)
     = Inr success_sentinel \<and>
   fst (get_stories (\<lambda>_. Response 204 []) client0 1 30 registered_world) = Inr success_sentinel \<and>
   fst (get_story (\<lambda>_. Response 204 []) client0 ''42'' registered_world) = Inr success_sentinel \<and>
   fst (post_story (\<lambda>_. Response 204 []) client0 ''title'' (JStr ''text'') JNull registered_world)
     = Inr success_sentinel \<and>
   fst (upvote_story (\<lambda>_. Response 204 []) client0 ''42'' registered_world) = Inr success_sentinel \<and>
   fst (health (\<lambda>_. Response 204 []) client0 registered_world) = Inr success_sentinel \<and>
   fst (check_status (\<lambda>_. Response 204 []) moltbook_world) = Inr JNull \<and>
   fst (get_feed (\<lambda>_. Response 204 []) ''hot'' 25 moltbook_world) = Inr JNull \<and>
   fst (get_post (\<lambda>_. Response 204 []) ''p1'' moltbook_world) = Inr JNull \<and>
   fst (search_posts (\<lambda>_. Response 204 []) ''agents'' 25 moltbook_world) = Inr JNull \<and>
   fst (get_submolts (\<lambda>_. Response 204 []) moltbook_world) = Inr JNull \<and>
   fst (get_my_profile (\<lambda>_. Response 204 []) moltbook_world) = Inr JNull \<and>
   fst (create_post (\<lambda>_. Response 204 []) ''general'' ''title'' (JStr ''text'') JNull moltbook_world)
     = Inr JNull \<and>
   fst (add_comment (\<lambda>_. Response 204 []) ''p1'' (JStr ''text'') JNull moltbook_world) = Inr JNull \<and>
   fst (upvote_post (\<lambda>_. Response 204 []) ''p1'' moltbook_world) = Inr JNull"
proof -
  have n: "\<forall>rq. (\<lambda>_. Response 204 []) rq = Response 204 []" by simp
  have p: "path_exists registered_world CREDENTIALS_FILE"
    by (simp add: path_exists_def registered_world_def world0_def)
  note a = no_content_response [OF n, where c = client0 and w = registered_world
      and http_method = "''GET''" and endpoint = "''/health''" and auth_required = False
      and params = "[]" and body = None and name = "''Bot''" and save = True
      and jn = JNull and vc = JNull and j = "JStr ''Bot''" and v = "JStr ''c0de''"
      and twitter_handle = "''@handle''" and page = 1 and per_page = 30 and story_id = "''42''"
      and title = "''title''" and content = "JStr ''text''" and url = JNull]
  note b = no_content_response [OF n, where w = moltbook_world
      and kvs = "[(''api_key'', JStr ''k'')]" and key = "JStr ''k''"
      and sort_by = "''hot''" and limit = 25 and post_id = "''p1''" and query = "''agents''"
      and submolt = "''general''" and title = "''title''" and content = "JStr ''text''"
      and url = JNull and parent_id = JNull]
  show ?thesis
    using a b p read_registered_world load_moltbook_world verify_load_registered_world
    by simp
qed

text \<open>
  Claim C3 as stated fails for the Moltbook script: \<^verbatim>\<open>upvote_post\<close> answered with
  204 returns \<^verbatim>\<open>None\<close>, not the success value.
\<close>

theorem upvote_post_no_content:
  "fst (upvote_post (\<lambda>_. Response 204 []) ''p1'' moltbook_world) = Inr JNull \<and>
   Inr JNull \<noteq> (Inr (JObj [(''status'', JStr ''success'')]) :: error + json)"
  by code_simp

text \<open>
  Claim C4, as amended. When the transport raises, \<^verbatim>\<open>_request\<close> raises
  \<^verbatim>\<open>AINewsError\<close> with the message \<^verbatim>\<open>Request failed:\<close> followed by the cause, and
  so does every operation of the AI News client that gets as far as the request; whatever
  the transport does, \<^verbatim>\<open>_request\<close> never lets its exception through. The functions of
  the Moltbook script catch nothing: with credentials, each of them raises what the
  transport raised.
\<close>

theorem transport_fault:
  assumes "\<forall>rq. net rq = Fault cause"
  shows "fst (request net c http_method endpoint auth_required params body w)
           = Inl (AINewsError (JStr (''Request failed: '' @ cause)) JNull JNull) \<and>
         fst (register net name save c w)
           = Inl (AINewsError (JStr (''Request failed: '' @ cause)) JNull JNull) \<and>
         (verify_load w jn vc = Inr (j, v) \<and> truthy j \<and> truthy v \<longrightarrow>
            fst (verify net c twitter_handle jn vc w)
              = Inl (AINewsError (JStr (''Request failed: '' @ cause)) JNull JNull)) \<and>
         fst (get_stories net c page per_page w)
           = Inl (AINewsError (JStr (''Request failed: '' @ cause)) JNull JNull) \<and>
         fst (get_story net c story_id w)
           = Inl (AINewsError (JStr (''Request failed: '' @ cause)) JNull JNull) \<and>
         (truthy content \<or> truthy url \<longrightarrow>
            fst (post_story net c title content url w)
              = Inl (AINewsError (JStr (''Request failed: '' @ cause)) JNull JNull)) \<and>
         fst (upvote_story net c story_id w)
           = Inl (AINewsError (JStr (''Request failed: '' @ cause)) JNull JNull) \<and>
         fst (health net c w)
           = Inl (AINewsError (JStr (''Request failed: '' @ cause)) JNull JNull) \<and>
         (\<forall>net' x. fst (request net' c http_method endpoint auth_required params body w)
                     \<noteq> Inl (RequestException x)) \<and>
         (load_credentials w = Inr (JObj kvs) \<and> kvs \<noteq> [] \<and> map_of kvs ''api_key'' = Some key \<longrightarrow>
            fst (check_status net w) = Inl (RequestException cause) \<and>
            fst (get_feed net sort_by limit w) = Inl (RequestException cause) \<and>
            fst (get_post net post_id w) = Inl (RequestException cause) \<and>
            fst (search_posts net query limit w) = Inl (RequestException cause) \<and>
            fst (get_submolts net w) = Inl (RequestException cause) \<and>
            fst (get_my_profile net w) = Inl (RequestException cause) \<and>
            fst (create_post net submolt title content url w) = Inl (RequestException cause) \<and>
            fst (add_comment net post_id content parent_id w) = Inl (RequestException cause) \<and>
            fst (upvote_post net post_id w) = Inl (RequestException cause))"
proof -
  note r = request_fault [of net _ _ _ _ _ _ cause]
  have molt: "fst (call net method' url' key' params' body' ok k w) = Inl (RequestException cause)"
    for method' url' key' params' body' ok k
    using assms by (intro call_fault) simp
  have 1: "fst (request net c http_method endpoint auth_required params body w)
           = Inl (AINewsError (JStr (''Request failed: '' @ cause)) JNull JNull)"
    using assms by (simp add: r)
  have 2: "fst (register net name save c w)
           = Inl (AINewsError (JStr (''Request failed: '' @ cause)) JNull JNull)"
    using assms by (simp add: register_def r)
  have 3: "verify_load w jn vc = Inr (j, v) \<and> truthy j \<and> truthy v \<longrightarrow>
            fst (verify net c twitter_handle jn vc w)
              = Inl (AINewsError (JStr (''Request failed: '' @ cause)) JNull JNull)"
    using assms by (simp add: verify_def r)
  have 4: "fst (get_stories net c page per_page w)
           = Inl (AINewsError (JStr (''Request failed: '' @ cause)) JNull JNull)"
    using assms by (simp add: get_stories_def r)
  have 5: "fst (get_story net c story_id w)
           = Inl (AINewsError (JStr (''Request failed: '' @ cause)) JNull JNull)"
    using assms by (simp add: get_story_def r)
  have 6: "truthy content \<or> truthy url \<longrightarrow>
            fst (post_story net c title content url w)
              = Inl (AINewsError (JStr (''Request failed: '' @ cause)) JNull JNull)"
    using assms by (auto simp add: post_story_def r Let_def)
  have 7: "fst (upvote_story net c story_id w)
           = Inl (AINewsError (JStr (''Request failed: '' @ cause)) JNull JNull)"
    using assms by (simp add: upvote_story_def r)
  have 8: "fst (health net c w)
           = Inl (AINewsError (JStr (''Request failed: '' @ cause)) JNull JNull)"
    using assms by (simp add: health_def r)
  have 9: "\<forall>net' x. fst (request net' c http_method endpoint auth_required params body w)
                     \<noteq> Inl (RequestException x)"
    by (simp add: request_never_raw)
  have 10: "fst (check_status net w) = Inl (RequestException cause) \<and>
            fst (get_feed net sort_by limit w) = Inl (RequestException cause) \<and>
            fst (get_post net post_id w) = Inl (RequestException cause) \<and>
            fst (search_posts net query limit w) = Inl (RequestException cause) \<and>
            fst (get_submolts net w) = Inl (RequestException cause) \<and>
            fst (get_my_profile net w) = Inl (RequestException cause) \<and>
            fst (create_post net submolt title content url w) = Inl (RequestException cause) \<and>
            fst (add_comment net post_id content parent_id w) = Inl (RequestException cause) \<and>
            fst (upvote_post net post_id w) = Inl (RequestException cause)"
    if "load_credentials w = Inr (JObj kvs)" "kvs \<noteq> []" "map_of kvs ''api_key'' = Some key"
    using that
    by (simp add: check_status_loaded with_credentials_loaded molt get_feed_def get_post_def
        search_posts_def get_submolts_def get_my_profile_def create_post_def add_comment_def
        upvote_post_def Let_def)
  from 1 2 3 4 5 6 7 8 9 10 show ?thesis by blast
qed

text \<open>
  An instance: a transport that refuses every connection.
\<close>

theorem transport_fault_witness:
  "(\<forall>rq. (\<lambda>_. Fault ''Connection refused'') rq = Fault ''Connection refused'') \<and>
   verify_load registered_world JNull JNull = Inr (JStr ''Bot'', JStr ''c0de'') \<and>
   truthy (JStr ''Bot'') \<and> truthy (JStr ''c0de'') \<and>
   (truthy (JStr ''text'') \<or> truthy JNull) \<and>
   load_credentials moltbook_world = Inr (JObj [(''api_key'', JStr ''k'')]) \<and>
   fst (request (\<lambda>_. Fault ''Connection refused'') client0 ''GET'' ''/health'' False [] None
          registered_world)
     = Inl (AINewsError (JStr ''Request failed: Connection refused'') JNull JNull) \<and>
   fst (register (\<lambda>_. Fault ''Connection refused'') ''Bot'' True client0 registered_world)
     = Inl (AINewsError (JStr ''Request failed: Connection refused'') JNull JNull) \<and>
   fst (verify (\<lambda>_. Fault ''Connection refused'') client0 ''@handle'' JNull JNull registered_world)
     = Inl (AINewsError (JStr ''Request failed: Connection refused'') JNull JNull) \<and>
   fst (get_stories (\<lambda>_. Fault ''Connection refused'') client0 1 30 registered_world)
     = Inl (AINewsError (JStr ''Request failed: Connection refused'') JNull JNull) \<and>
   fst (get_story (\<lambda>_. Fault ''Connection refused'') client0 ''42'' registered_world)
     = Inl (AINewsError (JStr ''Request failed: Connection refused'') JNull JNull) \<and>
   fst (post_story (\<lambda>_. Fault ''Connection refused'') client0 ''title'' (JStr ''text'') JNull
          registered_world)
     = Inl (AINewsError (JStr ''Request failed: Connection refused'') JNull JNull) \<and>
   fst (upvote_story (\<lambda>_. Fault ''Connection refused'') client0 ''42'' registered_world)
     = Inl (AINewsError (JStr ''Request failed: Connection refused'') JNull JNull) \<and>
   fst (health (\<lambda>_. Fault ''Connection refused'') client0 registered_world)
     = Inl (AINewsError (JStr ''Request failed: Connection refused'') JNull JNull) \<and>
   fst (get_feed (\<lambda>_. Fault ''Connection refused'') ''hot'' 25 moltbook_world)
     = Inl (RequestException ''Connection refused'') \<and>
   fst (upvote_post (\<lambda>_. Fault ''Connection refused'') ''p1'' moltbook_world)
     = Inl (RequestException ''Connection refused'')"
proof -
  have n: "\<forall>rq. (\<lambda>_. Fault ''Connection refused'') rq = Fault ''Connection refused''" by simp
  note a = transport_fault [OF n, where c = client0 and w = registered_world
      and http_method = "''GET''" and endpoint = "''/health''" and auth_required = False
      and params = "[]" and body = None and name = "''Bot''" and save = True
      and jn = JNull and vc = JNull and j = "JStr ''Bot''" and v = "JStr ''c0de''"
      and twitter_handle = "''@handle''" and page = 1 and per_page = 30 and story_id = "''42''"
      and title = "''title''" and content = "JStr ''text''" and url = JNull]
  note b = transport_fault [OF n, where w = moltbook_world
      and kvs = "[(''api_key'', JStr ''k'')]" and key = "JStr ''k''"
      and sort_by = "''hot''" and limit = 25 and post_id = "''p1''" and query = "''agents''"
      and submolt = "''general''" and title = "''title''" and content = "JStr ''text''"
      and url = JNull and parent_id = JNull]
  show ?thesis
    using a b load_moltbook_world verify_load_registered_world
    by simp
qed

text \<open>
  Claim C4 as stated fails for the Moltbook script: \<^verbatim>\<open>get_feed\<close> lets the
  exception of the transport through to its caller.
\<close>

theorem get_feed_raises_transport_fault:
  "fst (get_feed (\<lambda>_. Fault ''Connection refused'') ''hot'' 25 moltbook_world)
     = Inl (RequestException ''Connection refused'')"
  by code_simp

text \<open>
  Claim C5, as amended. \<^verbatim>\<open>AINewsClient.__init__\<close> takes the base URL from its
  argument when that is a non-empty string, else from \<^verbatim>\<open>AINEWS_BASE_URL\<close> when set,
  else the default; it takes the API key from its argument when that is true, else from
  \<^verbatim>\<open>AINEWS_API_KEY\<close> (\<^verbatim>\<open>None\<close> when unset), and never reads the credentials
  file. \<^verbatim>\<open>from_credentials\<close> passes the stored key as that argument, so the stored
  key comes before the environment. A request carries the \<^verbatim>\<open>X-API-Key\<close> header exactly
  when authentication is asked for and the key of the client is true, and the header is
  that key.
\<close>

theorem configuration_resolution:
  "(base_url_arg = Some b \<and> b \<noteq> [] \<longrightarrow> base_url (init w api_key_arg base_url_arg name_arg) = b) \<and>
   ((base_url_arg = None \<or> base_url_arg = Some []) \<and> map_of (environ w) ''AINEWS_BASE_URL'' = Some e
      \<longrightarrow> base_url (init w api_key_arg base_url_arg name_arg) = e) \<and>
   ((base_url_arg = None \<or> base_url_arg = Some []) \<and> map_of (environ w) ''AINEWS_BASE_URL'' = None
      \<longrightarrow> base_url (init w api_key_arg base_url_arg name_arg) = DEFAULT_BASE_URL) \<and>
   (truthy api_key_arg \<longrightarrow> api_key (init w api_key_arg base_url_arg name_arg) = api_key_arg) \<and>
   (\<not> truthy api_key_arg \<longrightarrow>
      api_key (init w api_key_arg base_url_arg name_arg) = environ_get w ''AINEWS_API_KEY'') \<and>
   init (w\<lparr>files := fs\<rparr>) api_key_arg base_url_arg name_arg = init w api_key_arg base_url_arg name_arg \<and>
   (read_json w CREDENTIALS_FILE = Inr (JObj kvs) \<and> map_of kvs ''api_key'' = Some stored \<longrightarrow>
      (\<exists>cl. from_credentials w None = Inr cl \<and>
           api_key cl = (if truthy stored then stored else environ_get w ''AINEWS_API_KEY''))) \<and>
   map_of (ainews_get_headers c auth_required) ''X-API-Key'' =
     (if auth_required \<and> truthy (api_key c) then Some (api_key c) else None) \<and>
   req_headers (session_request c http_method endpoint auth_required params body) =
     ainews_get_headers c auth_required"
proof -
  have "\<exists>cl. from_credentials w None = Inr cl \<and>
           api_key cl = (if truthy stored then stored else environ_get w ''AINEWS_API_KEY'')"
    if "read_json w CREDENTIALS_FILE = Inr (JObj kvs)" "map_of kvs ''api_key'' = Some stored"
    using that by (simp add: from_credentials_loaded init_def)
  moreover have "init (w\<lparr>files := fs\<rparr>) api_key_arg base_url_arg name_arg =
      init w api_key_arg base_url_arg name_arg"
    by (simp add: init_def environ_get_def)
  moreover have "map_of (ainews_get_headers c auth_required) ''X-API-Key'' =
     (if auth_required \<and> truthy (api_key c) then Some (api_key c) else None)"
    by (simp add: ainews_get_headers_def Let_def)
  moreover have "req_headers (session_request c http_method endpoint auth_required params body) =
     ainews_get_headers c auth_required"
    by (simp add: session_request_def)
  ultimately show ?thesis
    by (auto simp add: init_def)
qed

text \<open>
  Instances of each case.
\<close>

theorem configuration_resolution_witness:
  "base_url (init env_key_world JNull (Some ''http://localhost:8080/api'') JNull)
     = ''http://localhost:8080/api'' \<and>
   map_of (environ (world0\<lparr>environ := [(''AINEWS_BASE_URL'', ''http://staging/api'')]\<rparr>))
     ''AINEWS_BASE_URL'' = Some ''http://staging/api'' \<and>
   base_url (init (world0\<lparr>environ := [(''AINEWS_BASE_URL'', ''http://staging/api'')]\<rparr>) JNull None JNull)
     = ''http://staging/api'' \<and>
   map_of (environ env_key_world) ''AINEWS_BASE_URL'' = None \<and>
   base_url (init env_key_world JNull (Some []) JNull) = DEFAULT_BASE_URL \<and>
   truthy (JStr ''explicit'') \<and>
   api_key (init env_key_world (JStr ''explicit'') None JNull) = JStr ''explicit'' \<and>
   \<not> truthy JNull \<and>
   api_key (init env_key_world JNull None JNull) = JStr ''from-env'' \<and>
   read_json env_key_world CREDENTIALS_FILE = Inr (JObj registered_doc) \<and>
   map_of registered_doc ''api_key'' = Some (JStr ''stored'') \<and>
   (\<exists>c. from_credentials env_key_world None = Inr c \<and> api_key c = JStr ''stored'') \<and>
   map_of (ainews_get_headers client0 True) ''X-API-Key'' = Some (JStr ''key'') \<and>
   map_of (ainews_get_headers client0 False) ''X-API-Key'' = None \<and>
   map_of (ainews_get_headers (client0\<lparr>api_key := JStr []\<rparr>) True) ''X-API-Key'' = None"
proof -
  have r: "read_json env_key_world CREDENTIALS_FILE = Inr (JObj registered_doc)"
    by code_simp
  have m: "map_of registered_doc ''api_key'' = Some (JStr ''stored'')"
    by (simp add: registered_doc_def)
  note t = configuration_resolution
  show ?thesis
    using r m
      t [where w = env_key_world and base_url_arg = "Some ''http://localhost:8080/api''"
          and b = "''http://localhost:8080/api''" and api_key_arg = JNull and name_arg = JNull
          and kvs = registered_doc and stored = "JStr ''stored''"]
      t [where w = "world0\<lparr>environ := [(''AINEWS_BASE_URL'', ''http://staging/api'')]\<rparr>"
          and base_url_arg = None and e = "''http://staging/api''" and api_key_arg = JNull
          and name_arg = JNull]
      t [where w = env_key_world and base_url_arg = "Some []" and api_key_arg = JNull
          and name_arg = JNull]
      t [where w = env_key_world and base_url_arg = None and api_key_arg = "JStr ''explicit''"
          and name_arg = JNull]
      t [where w = env_key_world and base_url_arg = None and api_key_arg = JNull
          and name_arg = JNull]
      t [where c = client0 and auth_required = True]
      t [where c = client0 and auth_required = False]
      t [where c = "client0\<lparr>api_key := JStr []\<rparr>" and auth_required = True]
    by (simp add: env_key_world_def registered_world_def world0_def client0_def environ_get_def)
qed

text \<open>
  Claim C5 as stated fails twice. With a key in the credentials file and none in the
  environment, the constructor leaves the client without a key where the specification
  resolves the stored one; with a key in both, \<^verbatim>\<open>from_credentials\<close> takes the stored
  one where the specification puts the environment first.
\<close>

theorem api_key_not_from_store:
  "api_key (init registered_world JNull None JNull) = JNull \<and>
   spec_api_key registered_world JNull = JStr ''stored'' \<and>
   (\<exists>c. from_credentials env_key_world None = Inr c \<and> api_key c = JStr ''stored'') \<and>
   spec_api_key env_key_world JNull = JStr ''from-env''"
proof -
  have "from_credentials env_key_world None =
          Inr \<lparr>base_url = DEFAULT_BASE_URL, api_key = JStr ''stored'', journalist_name = JStr ''Bot''\<rparr>"
    by code_simp
  moreover have "api_key (init registered_world JNull None JNull) = JNull"
    by code_simp
  moreover have "spec_api_key registered_world JNull = JStr ''stored''"
    by code_simp
  moreover have "spec_api_key env_key_world JNull = JStr ''from-env''"
    by code_simp
  ultimately show ?thesis by simp
qed





text \<open>
  Claim C8. When the Moltbook credentials file does not exist, each of the nine functions
  that need credentials returns \<^verbatim>\<open>None\<close> and leaves the world as it was: no request
  is handed to the transport.
\<close>

theorem moltbook_without_credentials:
  assumes "\<not> path_exists w MOLTBOOK_CREDENTIALS_FILE"
  shows "check_status net w = (Inr JNull, w) \<and>
         get_feed net sort_by limit w = (Inr JNull, w) \<and>
         get_post net post_id w = (Inr JNull, w) \<and>
         search_posts net query limit w = (Inr JNull, w) \<and>
         get_submolts net w = (Inr JNull, w) \<and>
         get_my_profile net w = (Inr JNull, w) \<and>
         create_post net submolt title content url w = (Inr JNull, w) \<and>
         add_comment net post_id content parent_id w = (Inr JNull, w) \<and>
         upvote_post net post_id w = (Inr JNull, w)"
  using assms
  by (simp add: check_status_def get_feed_def get_post_def search_posts_def get_submolts_def
      get_my_profile_def create_post_def add_comment_def upvote_post_def
      with_credentials_def load_credentials_def)

text \<open>
  An instance: the empty world.
\<close>

theorem moltbook_without_credentials_witness:
  "\<not> path_exists world0 MOLTBOOK_CREDENTIALS_FILE \<and>
   check_status (\<lambda>_. Response 200 ''{}'') world0 = (Inr JNull, world0) \<and>
   get_feed (\<lambda>_. Response 200 ''{}'') ''hot'' 25 world0 = (Inr JNull, world0) \<and>
   get_post (\<lambda>_. Response 200 ''{}'') ''p1'' world0 = (Inr JNull, world0) \<and>
   search_posts (\<lambda>_. Response 200 ''{}'') ''agents'' 25 world0 = (Inr JNull, world0) \<and>
   get_submolts (\<lambda>_. Response 200 ''{}'') world0 = (Inr JNull, world0) \<and>
   get_my_profile (\<lambda>_. Response 200 ''{}'') world0 = (Inr JNull, world0) \<and>
   create_post (\<lambda>_. Response 200 ''{}'') ''general'' ''title'' (JStr ''text'') JNull world0
     = (Inr JNull, world0) \<and>
   add_comment (\<lambda>_. Response 200 ''{}'') ''p1'' (JStr ''text'') JNull world0 = (Inr JNull, world0) \<and>
   upvote_post (\<lambda>_. Response 200 ''{}'') ''p1'' world0 = (Inr JNull, world0) \<and>
   sent world0 = []"
proof -
  have h: "\<not> path_exists world0 MOLTBOOK_CREDENTIALS_FILE"
    by (simp add: path_exists_def world0_def)
  show ?thesis
    using h moltbook_without_credentials [OF h, where net = "\<lambda>_. Response 200 ''{}''"
        and sort_by = "''hot''" and limit = 25 and post_id = "''p1''" and query = "''agents''"
        and submolt = "''general''" and title = "''title''" and content = "JStr ''text''"
        and url = JNull and parent_id = JNull]
    by (simp add: world0_def)
qed



text \<open>
  Claim C10. \<^verbatim>\<open>lstrip("@")\<close> removes every leading \<^verbatim>\<open>@\<close>: the handle is some number
  of them followed by the stripped handle, which does not begin with one. If
  \<^verbatim>\<open>verify\<close> sends a request, its payload carries the stripped handle; if it changes
  the files, it writes a credentials document that carries the stripped handle; and when
  it returns with the file in place, the file read back holds the stripped handle.
\<close>

theorem verify_strips_leading_at:
  "(\<exists>n. twitter_handle = replicate n CHR ''@'' @ lstrip_at twitter_handle) \<and>
   take 1 (lstrip_at twitter_handle) \<noteq> ''@'' \<and>
   (sent (snd (verify net c twitter_handle jn vc w)) = sent w \<or>
    (\<exists>j v. sent (snd (verify net c twitter_handle jn vc w)) =
             sent w @ [session_request c ''POST'' ''/journalists/verify'' False []
                         (Some (JObj [(''journalist_name'', j), (''verification_code'', v),
                                      (''twitter_handle'', JStr (lstrip_at twitter_handle))]))])) \<and>
   (files (snd (verify net c twitter_handle jn vc w)) = files w \<or>
    (\<exists>kvs. files (snd (verify net c twitter_handle jn vc w)) =
            AList.update CREDENTIALS_FILE
              (json_dumps (JObj (AList.update ''twitter_handle'' (JStr (lstrip_at twitter_handle))
                                   (AList.update ''verified'' (JBool True) kvs))))
              (files w))) \<and>
   (verify net c twitter_handle jn vc w = (Inr response, w') \<and> path_exists w CREDENTIALS_FILE \<longrightarrow>
      (\<exists>kvs'. read_json w' CREDENTIALS_FILE = Inr (JObj kvs') \<and>
              map_of kvs' ''twitter_handle'' = Some (JStr (lstrip_at twitter_handle))))"
proof -
  have "\<exists>kvs'. read_json w' CREDENTIALS_FILE = Inr (JObj kvs') \<and>
              map_of kvs' ''twitter_handle'' = Some (JStr (lstrip_at twitter_handle))"
    if v: "verify net c twitter_handle jn vc w = (Inr response, w')"
      and ex: "path_exists w CREDENTIALS_FILE"
  proof -
    from v obtain j v' w1 where
      req: "request net c ''POST'' ''/journalists/verify'' False []
              (Some (verify_payload j v' twitter_handle)) w = (Inr response, w1)"
      and st: "verify_store twitter_handle w1 = Inr w'"
      by (rule verify_InrD)
    from req have w1: "w1 = w\<lparr>sent := sent w @ [session_request c ''POST'' ''/journalists/verify''
        False [] (Some (verify_payload j v' twitter_handle))]\<rparr>"
      by (rule request_InrD)
    from ex have "path_exists w1 CREDENTIALS_FILE" by (simp add: w1 path_exists_sent)
    with st obtain kvs where rd: "read_json w1 CREDENTIALS_FILE = Inr (JObj kvs)"
      and w': "w' = write_json CREDENTIALS_FILE (JObj (verified_doc twitter_handle kvs)) w1"
      by (rule verify_store_InrD)
    have "wf_json (JObj kvs)" using rd by (rule read_json_wf)
    then have "wf_json (JObj (verified_doc twitter_handle kvs))" by (rule wf_verified_doc)
    then have "read_json w' CREDENTIALS_FILE = Inr (JObj (verified_doc twitter_handle kvs))"
      unfolding w' by (rule read_write_json)
    then show ?thesis
      by (intro exI [of _ "verified_doc twitter_handle kvs"]) (simp add: map_of_verified_doc)
  qed
  with lstrip_at_replicate [of twitter_handle] lstrip_at_no_at [of twitter_handle]
    verify_sent [of net c twitter_handle jn vc w] verify_files [of net c twitter_handle jn vc w]
  show ?thesis
    unfolding verify_payload_def verified_doc_def by blast
qed

text \<open>
  An instance: a handle with two leading \<^verbatim>\<open>@\<close>.
\<close>

theorem verify_strips_leading_at_witness:
  "''@@agent'' = replicate 2 CHR ''@'' @ lstrip_at ''@@agent'' \<and>
   lstrip_at ''@@agent'' = ''agent'' \<and>
   path_exists registered_world CREDENTIALS_FILE \<and>
   verify verified_net client0 ''@@agent'' JNull JNull registered_world =
     (Inr (JObj [(''status'', JStr ''verified'')]),
      snd (verify verified_net client0 ''@@agent'' JNull JNull registered_world)) \<and>
   sent (snd (verify verified_net client0 ''@@agent'' JNull JNull registered_world)) =
     [session_request client0 ''POST'' ''/journalists/verify'' False []
        (Some (JObj [(''journalist_name'', JStr ''Bot''), (''verification_code'', JStr ''c0de''),
                     (''twitter_handle'', JStr ''agent'')]))] \<and>
   (\<exists>kvs'. read_json (snd (verify verified_net client0 ''@@agent'' JNull JNull registered_world))
             CREDENTIALS_FILE = Inr (JObj kvs') \<and>
           map_of kvs' ''twitter_handle'' = Some (JStr ''agent''))"
proof -
  have s: "lstrip_at ''@@agent'' = ''agent''" by (simp add: lstrip_at_def)
  have r: "''@@agent'' = replicate 2 CHR ''@'' @ lstrip_at ''@@agent''"
    by (simp add: s numeral_2_eq_2)
  have p: "path_exists registered_world CREDENTIALS_FILE"
    by (simp add: path_exists_def registered_file)
  have q: "sent (snd (verify verified_net client0 ''@@agent'' JNull JNull registered_world)) =
     [session_request client0 ''POST'' ''/journalists/verify'' False []
        (Some (JObj [(''journalist_name'', JStr ''Bot''), (''verification_code'', JStr ''c0de''),
                     (''twitter_handle'', JStr ''agent'')]))]"
    by code_simp
  from verify_strips_leading_at [where twitter_handle = "''@@agent''" and net = verified_net
      and c = client0 and jn = JNull and vc = JNull and w = registered_world
      and response = "JObj [(''status'', JStr ''verified'')]"
      and w' = "snd (verify verified_net client0 ''@@agent'' JNull JNull registered_world)"]
    verify_registered_pair p
  have "\<exists>kvs'. read_json (snd (verify verified_net client0 ''@@agent'' JNull JNull registered_world))
             CREDENTIALS_FILE = Inr (JObj kvs') \<and>
           map_of kvs' ''twitter_handle'' = Some (JStr (lstrip_at ''@@agent''))"
    by blast
  with s r p q verify_registered_pair show ?thesis by simp
qed

end
